theory Spec2Isabelle
  imports Complex_Main "HOL-Library.Char_ord" "HOL-Library.List_Lexorder" "HOL-Library.Multiset"
begin

section \<open>Values and run-time failures\<close>

text \<open>
  Go's floating-point values, as far as the code looks at them: a finite value, the two
  infinities, or NaN. The code only compares them (\<open><\<close>, \<open>>\<close>) and asks
  \<open>math.IsNaN\<close>; every comparison with NaN is false.
\<close>

datatype float = Fin real | PosInf | NegInf | NaN

type_synonym float32 = float
type_synonym float64 = float

fun flt :: "float \<Rightarrow> float \<Rightarrow> bool" where
  "flt NaN _ = False"
| "flt _ NaN = False"
| "flt (Fin a) (Fin b) = (a < b)"
| "flt (Fin _) PosInf = True"
| "flt (Fin _) NegInf = False"
| "flt PosInf _ = False"
| "flt NegInf NegInf = False"
| "flt NegInf _ = True"

definition fgt :: "float \<Rightarrow> float \<Rightarrow> bool" where
  "fgt a b = flt b a"

fun IsNaN :: "float \<Rightarrow> bool" where
  "IsNaN NaN = True"
| "IsNaN _ = False"

text \<open>The panics of the Go run time that the code can raise.\<close>

datatype error =
    IndexOutOfRange
  | NilDereference
  | DivideByZero
  | Panic string

text \<open>
  Go's \<open>int\<close> is 64 bits wide and wraps around; \<open>wrap64\<close> is the value a
  mathematical result has as an \<open>int\<close>.
\<close>

definition wrap64 :: "int \<Rightarrow> int" where
  "wrap64 x = (x + 2 ^ 63) mod 2 ^ 64 - 2 ^ 63"

definition imul :: "int \<Rightarrow> int \<Rightarrow> int" where
  "imul a b = wrap64 (a * b)"

definition iadd :: "int \<Rightarrow> int \<Rightarrow> int" where
  "iadd a b = wrap64 (a + b)"

section \<open>Columns and tables\<close>

text \<open>
  Modelled from the spec: the element of a column (package etensor is not among the
  sources). The column storage contract gives every flat index a float reading
  (\<open>floatAt\<close>), a string reading (\<open>stringAt\<close>) and a null bit (\<open>isNull\<close>).
\<close>

record elem =
  floatAt :: float64
  stringAt :: string
  isNull :: bool

text \<open>
  The element kinds the sources name: \<open>etensor.STRING\<close> in the comparators,
  \<open>*etensor.Float32\<close> and \<open>*etensor.Float64\<close> in the nearest-row helpers;
  \<open>OTHER\<close> stands for the remaining numeric kinds.
\<close>

datatype dtype = FLOAT32 | FLOAT64 | STRING | OTHER

text \<open>
  Modelled from the spec: a column (etensor.Tensor is not among the sources): its name,
  its element kind, its shape \<open>[rows, d1, d2, ...]\<close> and its flat element storage.
\<close>

record column =
  Name :: string
  DataType :: dtype
  Shape :: "nat list"
  Values :: "elem list"

text \<open>Modelled from the spec: \<open>len()\<close>, the total flat element count.\<close>

definition Len :: "column \<Rightarrow> nat" where
  "Len c = length (Values c)"

text \<open>
  Modelled from the spec: the typed element accessors of the column contract, with
  bounds-checked access.
\<close>

definition FloatVal1D :: "column \<Rightarrow> int \<Rightarrow> error + float64" where
  "FloatVal1D c i =
     (if 0 \<le> i \<and> i < int (Len c) then Inr (floatAt (Values c ! nat i))
      else Inl IndexOutOfRange)"

definition StringVal1D :: "column \<Rightarrow> int \<Rightarrow> error + string" where
  "StringVal1D c i =
     (if 0 \<le> i \<and> i < int (Len c) then Inr (stringAt (Values c ! nat i))
      else Inl IndexOutOfRange)"

definition IsNull1D :: "column \<Rightarrow> int \<Rightarrow> error + bool" where
  "IsNull1D c i =
     (if 0 \<le> i \<and> i < int (Len c) then Inr (isNull (Values c ! nat i))
      else Inl IndexOutOfRange)"

text \<open>
  Modelled from the spec: the shape decomposition of the column contract,
  \<open>cellSize = len() / dim(0)\<close>; Go's integer division panics on a zero divisor, and
  \<open>dim(0)\<close> of a column with no dimension is out of range.
\<close>

definition RowCellSize :: "column \<Rightarrow> error + (nat \<times> nat)" where
  "RowCellSize c =
     (case Shape c of
        [] \<Rightarrow> Inl IndexOutOfRange
      | rows # _ \<Rightarrow> if rows = 0 then Inl DivideByZero else Inr (rows, Len c div rows))"

text \<open>
  Modelled from the spec: the bulk copy primitive of the column contract: \<open>n\<close>
  contiguous elements of \<open>frm\<close>, from flat offset \<open>start\<close>, are written into
  \<open>tsr\<close> at flat offset \<open>to\<close>; the argument order is the one of the call in NewTable.
\<close>

definition CopyCellsFrom :: "column \<Rightarrow> column \<Rightarrow> int \<Rightarrow> int \<Rightarrow> int \<Rightarrow> error + column" where
  "CopyCellsFrom tsr frm to start n =
     (if to < 0 \<or> start < 0 \<or> n < 0 \<or> int (Len frm) < start + n \<or> int (Len tsr) < to + n
      then Inl IndexOutOfRange
      else Inr (tsr\<lparr>Values :=
        take (nat to) (Values tsr) @ take (nat n) (drop (nat start) (Values frm))
          @ drop (nat to + nat n) (Values tsr)\<rparr>))"

text \<open>
  Modelled from the spec: a table (table.go is not among the sources) is an ordered
  sequence of columns sharing a row count.
\<close>

record table =
  Cols :: "column list"
  Rows :: nat

section \<open>The store and the indexed view\<close>

text \<open>
  \<open>Idxs\<close> is a Go slice: a window on a backing array that other slices may share.
  The store holds the backing arrays of index slices and the tables, by address.
  A slice of this code always starts at the first cell of its backing array; its
  capacity is the length of that array. Address 0 holds the empty array of the nil slice.
  \<open>copies\<close> counts the calls of CopyCellsFrom.
\<close>

record slice =
  sptr :: nat
  slen :: nat

record state =
  arrs :: "nat \<Rightarrow> int list"
  anext :: nat
  tbls :: "nat \<Rightarrow> table"
  tnext :: nat
  copies :: nat

definition nil_slice :: slice where
  "nil_slice = \<lparr>sptr = 0, slen = 0\<rparr>"

type_synonym LessFunc = "table option \<Rightarrow> int \<Rightarrow> int \<Rightarrow> error + bool"
type_synonym FilterFunc = "table option \<Rightarrow> int \<Rightarrow> bool"

record IdxTable =
  Table :: "nat option"
  Idxs :: slice
  lessFunc :: "LessFunc option"

definition deref :: "state \<Rightarrow> nat option \<Rightarrow> table option" where
  "deref s p = map_option (tbls s) p"

definition idxs_of :: "state \<Rightarrow> IdxTable \<Rightarrow> int list" where
  "idxs_of s ix = take (slen (Idxs ix)) (arrs s (sptr (Idxs ix)))"

definition wf_view :: "state \<Rightarrow> IdxTable \<Rightarrow> bool" where
  "wf_view s ix =
     (sptr (Idxs ix) < anext s \<and> slen (Idxs ix) \<le> length (arrs s (sptr (Idxs ix))))"

subsection \<open>Filter\<close>

text \<open>
  \<open>append(ix.Idxs[:i], ix.Idxs[i+1:]...)\<close> on a slice of length \<open>n\<close>: the capacity
  suffices, so the cells \<open>i+1..n-1\<close> move one place down inside the backing array and
  the result has length \<open>n-1\<close>; the cells from \<open>n-1\<close> on keep their content.
\<close>

definition delete_at :: "int list \<Rightarrow> nat \<Rightarrow> nat \<Rightarrow> int list \<times> nat" where
  "delete_at a n i =
     (take i a @ take (n - Suc i) (drop (Suc i) a) @ drop (n - 1) a, n - 1)"

text \<open>
  The loop of Filter, \<open>for i := sz - 1; i >= 0; i--\<close>: the first argument is
  \<open>i + 1\<close>. Reading \<open>ix.Idxs[i]\<close> is bounds-checked against the current length.
\<close>

fun filterLoop :: "(int \<Rightarrow> bool) \<Rightarrow> nat \<Rightarrow> int list \<times> nat \<Rightarrow> error + (int list \<times> nat)" where
  "filterLoop f 0 (a, n) = Inr (a, n)"
| "filterLoop f (Suc i) (a, n) =
     (if n \<le> i then Inl IndexOutOfRange
      else if \<not> f (a ! i) then filterLoop f i (delete_at a n i)
      else filterLoop f i (a, n))"

definition Filter :: "state \<Rightarrow> IdxTable \<Rightarrow> FilterFunc \<Rightarrow> error + (state \<times> IdxTable)" where
  "Filter s ix filterFunc =
     (let p = sptr (Idxs ix); sz = slen (Idxs ix) in
      case filterLoop (filterFunc (deref s (Table ix))) sz (arrs s p, sz) of
        Inl e \<Rightarrow> Inl e
      | Inr (a, n) \<Rightarrow>
          Inr (s\<lparr>arrs := (arrs s)(p := a)\<rparr>, ix\<lparr>Idxs := \<lparr>sptr = p, slen = n\<rparr>\<rparr>))"

subsection \<open>Len, Less, Swap and Sort\<close>

definition Len_ix :: "state \<Rightarrow> IdxTable \<Rightarrow> int" where
  "Len_ix s ix = int (slen (Idxs ix))"

definition Less :: "state \<Rightarrow> IdxTable \<Rightarrow> int \<Rightarrow> int \<Rightarrow> error + bool" where
  "Less s ix i j =
     (let n = int (slen (Idxs ix)); a = arrs s (sptr (Idxs ix)) in
      if i < 0 \<or> n \<le> i \<or> j < 0 \<or> n \<le> j then Inl IndexOutOfRange
      else case lessFunc ix of
        None \<Rightarrow> Inl NilDereference
      | Some lf \<Rightarrow> lf (deref s (Table ix)) (a ! nat i) (a ! nat j))"

definition Swap :: "state \<Rightarrow> IdxTable \<Rightarrow> int \<Rightarrow> int \<Rightarrow> error + (state \<times> IdxTable)" where
  "Swap s ix i j =
     (let n = int (slen (Idxs ix)); p = sptr (Idxs ix); a = arrs s p in
      if i < 0 \<or> n \<le> i \<or> j < 0 \<or> n \<le> j then Inl IndexOutOfRange
      else Inr (s\<lparr>arrs := (arrs s)(p := (a[nat i := a ! nat j])[nat j := a ! nat i])\<rparr>, ix))"

text \<open>
  \<open>sort.Sort\<close> belongs to Go's standard library, not to this repository. It reaches
  its argument only through \<open>Len\<close>, \<open>Less\<close> and \<open>Swap\<close>, and of these only
  \<open>Swap\<close> writes. A run of it is therefore modelled by its schedule: the sequence of
  \<open>Swap\<close> calls it issues, which the library chooses from the answers of \<open>Less\<close>.
  What holds for every schedule holds for every run of the library.
\<close>

fun runSwaps :: "state \<Rightarrow> IdxTable \<Rightarrow> (int \<times> int) list \<Rightarrow> error + (state \<times> IdxTable)" where
  "runSwaps s ix [] = Inr (s, ix)"
| "runSwaps s ix ((i, j) # sched) =
     (case Swap s ix i j of
        Inl e \<Rightarrow> Inl e
      | Inr (s', ix') \<Rightarrow> runSwaps s' ix' sched)"

definition Sort :: "state \<Rightarrow> IdxTable \<Rightarrow> LessFunc \<Rightarrow> (int \<times> int) list \<Rightarrow> error + (state \<times> IdxTable)" where
  "Sort s ix lf sched = runSwaps s (ix\<lparr>lessFunc := Some lf\<rparr>) sched"

subsection \<open>The comparator of SortCols\<close>

text \<open>
  The closure that SortCols hands to Sort. It reads \<open>ix.Table\<close>, which is the table
  \<open>Less\<close> passes as \<open>et\<close>. The branches are those of the source, in its order.
\<close>

fun SortCols_less :: "int list \<Rightarrow> bool \<Rightarrow> table option \<Rightarrow> int \<Rightarrow> int \<Rightarrow> error + bool" where
  "SortCols_less [] ascending et i j = Inr False"
| "SortCols_less (ci # colIdxs) ascending et i j =
     (case et of
        None \<Rightarrow> Inl NilDereference
      | Some t \<Rightarrow>
          if ci < 0 \<or> int (length (Cols t)) \<le> ci then Inl IndexOutOfRange
          else
            let cl = Cols t ! nat ci in
            if DataType cl = STRING then
              (case StringVal1D cl i of
                 Inl e \<Rightarrow> Inl e
               | Inr si \<Rightarrow>
              (case StringVal1D cl j of
                 Inl e \<Rightarrow> Inl e
               | Inr sj \<Rightarrow>
                   if ascending then
                     (if si < sj then Inr True
                      else if si > sj then Inr False
                      else SortCols_less colIdxs ascending et i j)
                   else
                     (if si > sj then Inr True
                      else if si < sj then Inr False
                      else SortCols_less colIdxs ascending et i j)))
            else
              (case FloatVal1D cl i of
                 Inl e \<Rightarrow> Inl e
               | Inr vi \<Rightarrow>
              (case FloatVal1D cl j of
                 Inl e \<Rightarrow> Inl e
               | Inr vj \<Rightarrow>
                   if ascending then
                     (if flt vi vj then Inr True
                      else if flt vi vj then Inr False
                      else SortCols_less colIdxs ascending et i j)
                   else
                     (if fgt vi vj then Inr True
                      else if flt vi vj then Inr False
                      else SortCols_less colIdxs ascending et i j))))"

definition SortCols :: "state \<Rightarrow> IdxTable \<Rightarrow> int list \<Rightarrow> bool \<Rightarrow> (int \<times> int) list \<Rightarrow> error + (state \<times> IdxTable)" where
  "SortCols s ix colIdxs ascending sched = Sort s ix (SortCols_less colIdxs ascending) sched"

subsection \<open>Sequential, SetTable, NewIdxTable\<close>

text \<open>\<open>make([]int, n)\<close>: a fresh backing array of \<open>n\<close> zeros.\<close>

definition make_ints :: "state \<Rightarrow> nat \<Rightarrow> state \<times> slice" where
  "make_ints s n =
     (s\<lparr>arrs := (arrs s)(anext s := replicate n 0), anext := Suc (anext s)\<rparr>,
      \<lparr>sptr = anext s, slen = n\<rparr>)"

fun seqLoop :: "nat list \<Rightarrow> int list \<Rightarrow> int list" where
  "seqLoop [] a = a"
| "seqLoop (i # rest) a = seqLoop rest (a[i := int i])"

definition Sequential :: "state \<Rightarrow> IdxTable \<Rightarrow> state \<times> IdxTable" where
  "Sequential s ix =
     (case Table ix of
        None \<Rightarrow> (s, ix\<lparr>Idxs := nil_slice\<rparr>)
      | Some tp \<Rightarrow>
          let (s1, sl) = make_ints s (Rows (tbls s tp));
              a = seqLoop [0..<slen sl] (arrs s1 (sptr sl))
          in (s1\<lparr>arrs := (arrs s1)(sptr sl := a)\<rparr>, ix\<lparr>Idxs := sl\<rparr>))"

definition SetTable :: "state \<Rightarrow> IdxTable \<Rightarrow> nat option \<Rightarrow> state \<times> IdxTable" where
  "SetTable s ix et = Sequential s (ix\<lparr>Table := et\<rparr>)"

definition new_IdxTable :: IdxTable where
  "new_IdxTable = \<lparr>Table = None, Idxs = nil_slice, lessFunc = None\<rparr>"

definition NewIdxTable :: "state \<Rightarrow> nat option \<Rightarrow> state \<times> IdxTable" where
  "NewIdxTable s et = SetTable s new_IdxTable et"

subsection \<open>CopyFrom and Clone\<close>

text \<open>\<open>copy(dst, src)\<close> writes the first \<open>min(len(dst), len(src))\<close> cells of dst.\<close>

definition copy_ints :: "state \<Rightarrow> slice \<Rightarrow> slice \<Rightarrow> state" where
  "copy_ints s dst src =
     (let k = min (slen dst) (slen src) in
      s\<lparr>arrs := (arrs s)(sptr dst := take k (arrs s (sptr src)) @ drop k (arrs s (sptr dst)))\<rparr>)"

definition CopyFrom :: "state \<Rightarrow> IdxTable \<Rightarrow> IdxTable \<Rightarrow> state \<times> IdxTable" where
  "CopyFrom s ix oix =
     (let (s1, sl) = make_ints s (slen (Idxs oix)) in
      (copy_ints s1 sl (Idxs oix), ix\<lparr>Table := Table oix, Idxs := sl\<rparr>))"

definition Clone :: "state \<Rightarrow> IdxTable \<Rightarrow> state \<times> IdxTable" where
  "Clone s ix = CopyFrom s new_IdxTable ix"

subsection \<open>NewTable\<close>

text \<open>
  Modelled from the spec: schema introspection (table.go is not among the sources): the
  ordered list of \<open>(name, kind, shape)\<close> of the columns, the shape being the cell
  shape, without the row dimension.
\<close>

record colspec =
  sName :: string
  sType :: dtype
  sCellShape :: "nat list"

definition Schema :: "table \<Rightarrow> colspec list" where
  "Schema t =
     map (\<lambda>c. \<lparr>sName = Name c, sType = DataType c, sCellShape = tl (Shape c)\<rparr>) (Cols t)"

text \<open>
  Modelled from the spec: \<open>New(sc, rows)\<close> constructs the same-shape empty table of a
  schema with the given number of rows; \<open>zero_elem\<close> is the element it is filled
  with.
\<close>

definition zero_elem :: elem where
  "zero_elem = \<lparr>floatAt = Fin 0, stringAt = [], isNull = False\<rparr>"

definition New :: "colspec list \<Rightarrow> nat \<Rightarrow> table" where
  "New sc rows =
     \<lparr>Cols = map (\<lambda>x. \<lparr>Name = sName x, DataType = sType x, Shape = rows # sCellShape x,
                        Values = replicate (rows * prod_list (sCellShape x)) zero_elem\<rparr>) sc,
      Rows = rows\<rparr>"

text \<open>
  The inner loop, \<open>for i, srw := range ix.Idxs\<close>: the destination column and the
  number of CopyCellsFrom calls so far are threaded through.
\<close>

fun copyRows :: "column \<Rightarrow> nat \<Rightarrow> nat \<Rightarrow> int list \<Rightarrow> column \<times> nat \<Rightarrow> error + (column \<times> nat)" where
  "copyRows scl csz i [] (tcl, k) = Inr (tcl, k)"
| "copyRows scl csz i (srw # idxs) (tcl, k) =
     (case CopyCellsFrom tcl scl (imul (int i) (int csz)) (imul srw (int csz)) (int csz) of
        Inl e \<Rightarrow> Inl e
      | Inr tcl' \<Rightarrow> copyRows scl csz (Suc i) idxs (tcl', Suc k))"

text \<open>The outer loop, \<open>for ci := range nt.Cols\<close>.\<close>

fun copyCols :: "column list \<Rightarrow> int list \<Rightarrow> nat list \<Rightarrow> table \<times> nat \<Rightarrow> error + (table \<times> nat)" where
  "copyCols scols idxs [] (nt, k) = Inr (nt, k)"
| "copyCols scols idxs (ci # rest) (nt, k) =
     (if length scols \<le> ci then Inl IndexOutOfRange
      else
        let scl = scols ! ci; tcl = Cols nt ! ci in
        case RowCellSize tcl of
          Inl e \<Rightarrow> Inl e
        | Inr (_, csz) \<Rightarrow>
            (case copyRows scl csz 0 idxs (tcl, k) of
               Inl e \<Rightarrow> Inl e
             | Inr (tcl', k') \<Rightarrow> copyCols scols idxs rest (nt\<lparr>Cols := (Cols nt)[ci := tcl']\<rparr>, k')))"

text \<open>
  A method returns the store and its receiver as they are after the call, then its
  result: here the address of the new table.
\<close>

definition NewTable :: "state \<Rightarrow> IdxTable \<Rightarrow> error + (state \<times> IdxTable \<times> nat)" where
  "NewTable s ix =
     (let rows = slen (Idxs ix) in
      case Table ix of
        None \<Rightarrow> Inl NilDereference
      | Some tp \<Rightarrow>
          let sc = Schema (tbls s tp);
              nt = New sc rows
          in if rows = 0
             then Inr (s\<lparr>tbls := (tbls s)(tnext s := nt), tnext := Suc (tnext s)\<rparr>, ix, tnext s)
             else
               (case copyCols (Cols (tbls s tp)) (idxs_of s ix) [0..<length (Cols nt)] (nt, copies s) of
                  Inl e \<Rightarrow> Inl e
                | Inr (nt', k) \<Rightarrow>
                    Inr (s\<lparr>tbls := (tbls s)(tnext s := nt'), tnext := Suc (tnext s), copies := k\<rparr>,
                         ix, tnext s)))"

subsection \<open>AggCol\<close>

type_synonym AggFunc = "int \<Rightarrow> float64 \<Rightarrow> float64 \<Rightarrow> float64"

text \<open>The loop of the branch \<open>csz == 1\<close>.\<close>

fun aggRows1 :: "column \<Rightarrow> AggFunc \<Rightarrow> int list \<Rightarrow> float64 list \<Rightarrow> error + float64 list" where
  "aggRows1 cl fn [] ag = Inr ag"
| "aggRows1 cl fn (srw # idxs) ag =
     (case FloatVal1D cl srw of
        Inl e \<Rightarrow> Inl e
      | Inr val \<Rightarrow>
     (case IsNull1D cl srw of
        Inl e \<Rightarrow> Inl e
      | Inr nl \<Rightarrow>
          if \<not> nl \<and> \<not> IsNaN val
          then (if length ag = 0 then Inl IndexOutOfRange
                else aggRows1 cl fn idxs (ag[0 := fn srw val (ag ! 0)]))
          else aggRows1 cl fn idxs ag))"

text \<open>The loops of the other branch: \<open>for j := range ag\<close> inside \<open>for _, srw := range ix.Idxs\<close>.\<close>

fun aggCells :: "column \<Rightarrow> AggFunc \<Rightarrow> int \<Rightarrow> nat list \<Rightarrow> float64 list \<Rightarrow> error + float64 list" where
  "aggCells cl fn si [] ag = Inr ag"
| "aggCells cl fn si (j # js) ag =
     (case FloatVal1D cl (iadd si (int j)) of
        Inl e \<Rightarrow> Inl e
      | Inr val \<Rightarrow>
     (case IsNull1D cl (iadd si (int j)) of
        Inl e \<Rightarrow> Inl e
      | Inr nl \<Rightarrow>
          if \<not> nl \<and> \<not> IsNaN val
          then aggCells cl fn si js (ag[j := fn (iadd si (int j)) val (ag ! j)])
          else aggCells cl fn si js ag))"

fun aggRowsN :: "column \<Rightarrow> AggFunc \<Rightarrow> nat \<Rightarrow> int list \<Rightarrow> float64 list \<Rightarrow> error + float64 list" where
  "aggRowsN cl fn csz [] ag = Inr ag"
| "aggRowsN cl fn csz (srw # idxs) ag =
     (case aggCells cl fn (imul srw (int csz)) [0..<length ag] ag of
        Inl e \<Rightarrow> Inl e
      | Inr ag' \<Rightarrow> aggRowsN cl fn csz idxs ag')"

definition AggCol :: "state \<Rightarrow> IdxTable \<Rightarrow> int \<Rightarrow> float64 \<Rightarrow> AggFunc \<Rightarrow> error + (state \<times> IdxTable \<times> float64 list)" where
  "AggCol s ix colIdx ini fn =
     (case Table ix of
        None \<Rightarrow> Inl NilDereference
      | Some tp \<Rightarrow>
          if colIdx < 0 \<or> int (length (Cols (tbls s tp))) \<le> colIdx then Inl IndexOutOfRange
          else
            let cl = Cols (tbls s tp) ! nat colIdx in
            case RowCellSize cl of
              Inl e \<Rightarrow> Inl e
            | Inr (_, csz) \<Rightarrow>
                let ag = replicate csz ini in
                case (if csz = 1 then aggRows1 cl fn (idxs_of s ix) ag
                      else aggRowsN cl fn csz (idxs_of s ix) ag) of
                  Inl e \<Rightarrow> Inl e
                | Inr ag' \<Rightarrow> Inr (s, ix, ag'))"

section \<open>The nearest-row helpers of package metric\<close>

text \<open>
  Modelled from the spec: \<open>dim(0)\<close>, the row count of a tensor, and \<open>Floats\<close>, its
  elements as floats (\<open>Values\<close> of an \<open>etensor.Float32\<close> or \<open>etensor.Float64\<close>).
\<close>

definition Dim0 :: "column \<Rightarrow> error + nat" where
  "Dim0 c = (case Shape c of [] \<Rightarrow> Inl IndexOutOfRange | rows # _ \<Rightarrow> Inr rows)"

definition Floats :: "column \<Rightarrow> float list" where
  "Floats c = map floatAt (Values c)"

definition MaxFloat32 :: float where
  "MaxFloat32 = Fin (2 ^ 127 * (2 - 1 / 2 ^ 23))"

definition MaxFloat64 :: float where
  "MaxFloat64 = Fin (2 ^ 1023 * (2 - 1 / 2 ^ 52))"

text \<open>
  The loop \<open>for ri := 0; ri < rows; ri++\<close> of both helpers. The first component of the
  accumulator lists the rows examined so far, that is, handed to the metric function.
  The offsets \<open>ri * csz\<close> and \<open>st + csz\<close> are products and sums of lengths, which the
  bounds check keeps below the length of the values.
\<close>

fun closestLoop :: "(float list \<Rightarrow> float list \<Rightarrow> float) \<Rightarrow> float list \<Rightarrow> float list \<Rightarrow> nat \<Rightarrow>
    nat list \<Rightarrow> nat list \<times> int \<times> float \<Rightarrow> nat list \<times> (error + (int \<times> float))" where
  "closestLoop mfun pv cv csz [] (lg, ci, minv) = (lg, Inr (ci, minv))"
| "closestLoop mfun pv cv csz (ri # ris) (lg, ci, minv) =
     (let st = ri * csz in
      if length cv < st + csz then (lg, Inl IndexOutOfRange)
      else
        let rvals = take csz (drop st cv);
            v = mfun pv rvals
        in if flt v minv then closestLoop mfun pv cv csz ris (lg @ [ri], int ri, v)
           else closestLoop mfun pv cv csz ris (lg @ [ri], ci, minv))"

definition ClosestRow32 :: "column \<Rightarrow> column \<Rightarrow> (float32 list \<Rightarrow> float32 list \<Rightarrow> float32) \<Rightarrow>
    nat list \<times> (error + (int \<times> float32))" where
  "ClosestRow32 probe col mfun =
     (case Dim0 col of
        Inl e \<Rightarrow> ([], Inl e)
      | Inr rows \<Rightarrow>
          if rows = 0 then ([], Inl DivideByZero)
          else
            let csz = Len col div rows in
            if csz \<noteq> Len probe
            then ([], Inl (Panic ''metric.ClosestRow32: probe size != cell size of tensor column!''))
            else closestLoop mfun (Floats probe) (Floats col) csz [0..<rows] ([], - 1, MaxFloat32))"

definition ClosestRow64 :: "column \<Rightarrow> column \<Rightarrow> (float64 list \<Rightarrow> float64 list \<Rightarrow> float64) \<Rightarrow>
    nat list \<times> (error + (int \<times> float64))" where
  "ClosestRow64 probe col mfun =
     (case Dim0 col of
        Inl e \<Rightarrow> ([], Inl e)
      | Inr rows \<Rightarrow>
          if rows = 0 then ([], Inl DivideByZero)
          else
            let csz = Len col div rows in
            if csz \<noteq> Len probe
            then ([], Inl (Panic ''metric.ClosestRow64: probe size != cell size of tensor column!''))
            else
              let pok = (DataType probe = FLOAT64); cok = (DataType col = FLOAT64) in
              if pok \<and> cok
              then closestLoop mfun (Floats probe) (Floats col) csz [0..<rows] ([], - 1, MaxFloat64)
              else if cok
              then closestLoop mfun (Floats probe) (Floats col) csz [0..<rows] ([], - 1, MaxFloat64)
              else closestLoop mfun (Floats probe) (Floats col) csz [0..<rows] ([], - 1, MaxFloat64))"

section \<open>The specification's wording of the results\<close>

text \<open>
  The aggregate as the specification words it: one scalar per cell position \<open>j\<close>,
  accumulated over the rows in index order from the initial value, an element that is
  null or NaN leaving the accumulator as it is. The flat index of position \<open>j\<close> of row
  \<open>srw\<close> is \<open>srw * csz + j\<close>.
\<close>

definition agg_step :: "column \<Rightarrow> AggFunc \<Rightarrow> int \<Rightarrow> float64 \<Rightarrow> float64" where
  "agg_step cl fn idx acc =
     (let e = Values cl ! nat idx in
      if \<not> isNull e \<and> \<not> IsNaN (floatAt e) then fn idx (floatAt e) acc else acc)"

definition agg_spec :: "column \<Rightarrow> AggFunc \<Rightarrow> nat \<Rightarrow> int list \<Rightarrow> float64 \<Rightarrow> float64 list" where
  "agg_spec cl fn csz idxs ini =
     map (\<lambda>j. foldl (\<lambda>acc srw. agg_step cl fn (srw * int csz + int j) acc) ini idxs) [0..<csz]"

text \<open>
  The invariants of the data model: a column of a table with \<open>rows\<close> rows has the shape
  \<open>rows # cell shape\<close> and as many elements as its shape says, fewer than \<open>2 ^ 63\<close>
  (the length of a Go slice is an \<open>int\<close>); every index of a view is a physical row.
\<close>

definition cellSize :: "column \<Rightarrow> nat" where
  "cellSize c = prod_list (tl (Shape c))"

definition wf_column :: "nat \<Rightarrow> column \<Rightarrow> bool" where
  "wf_column rows c =
     (Shape c \<noteq> [] \<and> hd (Shape c) = rows \<and> length (Values c) = rows * cellSize c \<and>
      length (Values c) < 2 ^ 63)"

definition wf_table :: "table \<Rightarrow> bool" where
  "wf_table t = list_all (wf_column (Rows t)) (Cols t)"

definition valid_idxs :: "nat \<Rightarrow> int list \<Rightarrow> bool" where
  "valid_idxs rows idxs = list_all (\<lambda>srw. 0 \<le> srw \<and> srw < int rows) idxs"

text \<open>The cell of row \<open>r\<close>: \<open>csz\<close> contiguous elements from flat offset \<open>r * csz\<close>.\<close>

definition cell :: "column \<Rightarrow> nat \<Rightarrow> nat \<Rightarrow> elem list" where
  "cell c csz r = take csz (drop (r * csz) (Values c))"

text \<open>
  The materialised table as the specification words it: the same columns, with as many
  rows as the view has indexes, the cell of logical row \<open>i\<close> being the cell of the
  physical row \<open>idxs ! i\<close> of the source column.
\<close>

definition gather :: "column \<Rightarrow> int list \<Rightarrow> elem list" where
  "gather c idxs = concat (map (\<lambda>srw. cell c (cellSize c) (nat srw)) idxs)"

definition materialize :: "table \<Rightarrow> int list \<Rightarrow> table" where
  "materialize t idxs =
     \<lparr>Cols = map (\<lambda>c. c\<lparr>Shape := length idxs # tl (Shape c), Values := gather c idxs\<rparr>) (Cols t),
      Rows = length idxs\<rparr>"

text \<open>The columns of the new table are slices too: their lengths fit an \<open>int\<close>.\<close>

definition fits :: "table \<Rightarrow> nat \<Rightarrow> bool" where
  "fits t rows = list_all (\<lambda>c. rows * cellSize c < 2 ^ 63) (Cols t)"

text \<open>A sequence of mutations of one view: calls of Filter and of Sort.\<close>

datatype mutation = DoFilter FilterFunc | DoSort LessFunc "(int \<times> int) list"

fun mutate :: "state \<Rightarrow> IdxTable \<Rightarrow> mutation list \<Rightarrow> error + (state \<times> IdxTable)" where
  "mutate s ix [] = Inr (s, ix)"
| "mutate s ix (DoFilter f # ms) =
     (case Filter s ix f of Inl e \<Rightarrow> Inl e | Inr (s', ix') \<Rightarrow> mutate s' ix' ms)"
| "mutate s ix (DoSort lf sched # ms) =
     (case Sort s ix lf sched of Inl e \<Rightarrow> Inl e | Inr (s', ix') \<Rightarrow> mutate s' ix' ms)"

section \<open>Example data\<close>

text \<open>
  The table of the specification's examples: rows \<open>(id:3, v:"b")\<close>, \<open>(id:1, v:"a")\<close>,
  \<open>(id:2, v:"a")\<close>, with a fresh view on it in a store.
\<close>

definition fl :: "real \<Rightarrow> string \<Rightarrow> elem" where
  "fl x txt = \<lparr>floatAt = Fin x, stringAt = txt, isNull = False\<rparr>"

definition ex_id :: column where
  "ex_id = \<lparr>Name = ''id'', DataType = FLOAT64, Shape = [3],
            Values = [fl 3 ''3'', fl 1 ''1'', fl 2 ''2'']\<rparr>"

definition ex_v :: column where
  "ex_v = \<lparr>Name = ''v'', DataType = STRING, Shape = [3],
           Values = [fl 0 ''b'', fl 0 ''a'', fl 0 ''a'']\<rparr>"

definition ex_table :: table where
  "ex_table = \<lparr>Cols = [ex_id, ex_v], Rows = 3\<rparr>"

definition ex_state0 :: state where
  "ex_state0 = \<lparr>arrs = (\<lambda>_. []), anext = 1,
                tbls = (\<lambda>_. \<lparr>Cols = [], Rows = 0\<rparr>)(0 := ex_table), tnext = 1, copies = 0\<rparr>"

definition ex_state :: state where
  "ex_state = ex_state0\<lparr>arrs := (\<lambda>_. [])(1 := [0, 1, 2]), anext := 2\<rparr>"

definition ex_view :: IdxTable where
  "ex_view = \<lparr>Table = Some 0, Idxs = \<lparr>sptr = 1, slen = 3\<rparr>, lessFunc = None\<rparr>"

definition ex_keep :: FilterFunc where
  "ex_keep et row =
     (case et of
        None \<Rightarrow> False
      | Some t \<Rightarrow> (case FloatVal1D (Cols t ! 0) row of Inl _ \<Rightarrow> False | Inr v \<Rightarrow> v \<noteq> Fin 3))"

text \<open>
  The column of the aggregation example, \<open>[1.0, NaN, 3.0, null]\<close>, and a sum reducer.
  \<open>fadd\<close> is Go's \<open>+\<close> wherever the exact sum is a float, as it is in the example.
\<close>

fun fadd :: "float \<Rightarrow> float \<Rightarrow> float" where
  "fadd NaN _ = NaN"
| "fadd _ NaN = NaN"
| "fadd (Fin a) (Fin b) = Fin (a + b)"
| "fadd PosInf NegInf = NaN"
| "fadd NegInf PosInf = NaN"
| "fadd PosInf _ = PosInf"
| "fadd _ PosInf = PosInf"
| "fadd NegInf _ = NegInf"
| "fadd _ NegInf = NegInf"

definition ex_sum :: AggFunc where
  "ex_sum idx val agg = fadd agg val"

definition ex_x :: column where
  "ex_x = \<lparr>Name = ''x'', DataType = FLOAT64, Shape = [4],
           Values = [fl 1 ''1'', \<lparr>floatAt = NaN, stringAt = ''NaN'', isNull = False\<rparr>,
                     fl 3 ''3'', \<lparr>floatAt = Fin 7, stringAt = ''7'', isNull = True\<rparr>]\<rparr>"

definition ex_agg_state :: state where
  "ex_agg_state = \<lparr>arrs = (\<lambda>_. [])(1 := [0, 1, 2, 3]), anext = 2,
                   tbls = (\<lambda>_. \<lparr>Cols = [], Rows = 0\<rparr>)(0 := \<lparr>Cols = [ex_x], Rows = 4\<rparr>),
                   tnext = 1, copies = 0\<rparr>"

definition ex_agg_view :: IdxTable where
  "ex_agg_view = \<lparr>Table = Some 0, Idxs = \<lparr>sptr = 1, slen = 4\<rparr>, lessFunc = None\<rparr>"

text \<open>Two numeric key columns, for the comparator of SortCols.\<close>

definition ex_ab :: table where
  "ex_ab = \<lparr>Cols = [\<lparr>Name = ''colA'', DataType = FLOAT64, Shape = [2],
                     Values = [fl 2 ''2'', fl 1 ''1'']\<rparr>,
                    \<lparr>Name = ''colB'', DataType = FLOAT64, Shape = [2],
                     Values = [fl 1 ''1'', fl 2 ''2'']\<rparr>],
            Rows = 2\<rparr>"

text \<open>
  A column of two rows with cells of two elements, a probe of the cell size, a probe of
  another size, and a metric: the number of positions at which two patterns differ.
\<close>

definition ex_col :: column where
  "ex_col = \<lparr>Name = ''pat'', DataType = FLOAT64, Shape = [2, 2],
             Values = [fl 1 ''1'', fl 2 ''2'', fl 3 ''3'', fl 4 ''4'']\<rparr>"

definition ex_probe :: column where
  "ex_probe = \<lparr>Name = ''probe'', DataType = FLOAT64, Shape = [2],
               Values = [fl 3 ''3'', fl 4 ''4'']\<rparr>"

definition ex_probe3 :: column where
  "ex_probe3 = \<lparr>Name = ''probe'', DataType = FLOAT64, Shape = [3],
                Values = [fl 3 ''3'', fl 4 ''4'', fl 5 ''5'']\<rparr>"

definition ex_metric :: "float list \<Rightarrow> float list \<Rightarrow> float" where
  "ex_metric a b = Fin (of_nat (length (filter (\<lambda>(x, y). x \<noteq> y) (zip a b))))"

text \<open>
  Two more views on the example table: one filtered down to nothing, and one with the
  rows 2, 0, 2 (a row may occur twice) in a backing array with a spare cell.
\<close>

definition ex_empty_view :: IdxTable where
  "ex_empty_view = \<lparr>Table = Some 0, Idxs = \<lparr>sptr = 1, slen = 0\<rparr>, lessFunc = None\<rparr>"

definition ex_state2 :: state where
  "ex_state2 = ex_state\<lparr>arrs := (arrs ex_state)(2 := [2, 0, 2, 1]), anext := 3\<rparr>"

definition ex_view2 :: IdxTable where
  "ex_view2 = \<lparr>Table = Some 0, Idxs = \<lparr>sptr = 2, slen = 3\<rparr>, lessFunc = None\<rparr>"

text \<open>A comparator for the examples: descending by the column \<open>id\<close>.\<close>

definition ex_by_id_desc :: LessFunc where
  "ex_by_id_desc = SortCols_less [0] False"

section \<open>Facts about the example data\<close>

lemma ex_wf: "wf_view ex_state ex_view"
  by (simp add: wf_view_def ex_state_def ex_view_def ex_state0_def)

lemma ex_idxs: "idxs_of ex_state ex_view = [0, 1, 2]"
  by (simp add: idxs_of_def ex_state_def ex_view_def ex_state0_def)

lemma ex_deref: "deref ex_state (Table ex_view) = Some ex_table"
  by (simp add: deref_def ex_state_def ex_view_def ex_state0_def)

lemma ex_keep_vals:
  "\<not> ex_keep (Some ex_table) 0" "ex_keep (Some ex_table) 1" "ex_keep (Some ex_table) 2"
  by (simp_all add: ex_keep_def ex_table_def ex_id_def FloatVal1D_def Len_def fl_def)

section \<open>Filter\<close>

lemma delete_at_props:
  assumes "i < n" "n \<le> length a"
  shows "length (fst (delete_at a n i)) = length a"
    and "snd (delete_at a n i) = n - 1"
    and "take i (fst (delete_at a n i)) = take i a"
    and "take (n - Suc i) (drop i (fst (delete_at a n i))) = take (n - Suc i) (drop (Suc i) a)"
  using assms by (auto simp: delete_at_def min_def)

text \<open>
  The invariant of the reverse loop: below the loop index the array is untouched, from
  the loop index on the slice holds the kept entries in their order.
\<close>

lemma filterLoop_inv:
  "k \<le> n \<Longrightarrow> n \<le> length a \<Longrightarrow>
   \<exists>a' n'. filterLoop f k (a, n) = Inr (a', n') \<and> length a' = length a \<and> n' \<le> n \<and>
     take n' a' = filter f (take k a) @ take (n - k) (drop k a)"
proof (induction k arbitrary: a n)
  case 0
  then show ?case by simp
next
  case (Suc i)
  then have in': "i < n" "n \<le> length a" by simp_all
  have tk: "take (Suc i) a = take i a @ [a ! i]"
    using in' by (simp add: take_Suc_conv_app_nth)
  show ?case
  proof (cases "f (a ! i)")
    case True
    have dr: "take (n - i) (drop i a) = a ! i # take (n - Suc i) (drop (Suc i) a)"
      using in' by (metis Cons_nth_drop_Suc Suc_diff_Suc less_le_trans take_Suc_Cons)
    from Suc.IH[of n a] in' obtain a' n' where
      "filterLoop f i (a, n) = Inr (a', n')" "length a' = length a" "n' \<le> n"
      "take n' a' = filter f (take i a) @ take (n - i) (drop i a)" by auto
    then show ?thesis using True in' tk dr by auto
  next
    case False
    obtain a2 n2 where d: "delete_at a n i = (a2, n2)" by fastforce
    from delete_at_props[OF in'] d have p: "length a2 = length a" "n2 = n - 1"
      "take i a2 = take i a"
      "take (n - Suc i) (drop i a2) = take (n - Suc i) (drop (Suc i) a)" by simp_all
    have "i \<le> n2" "n2 \<le> length a2" using p in' by simp_all
    from Suc.IH[OF this] obtain a' n' where
      r: "filterLoop f i (a2, n2) = Inr (a', n')" "length a' = length a2" "n' \<le> n2"
      "take n' a' = filter f (take i a2) @ take (n2 - i) (drop i a2)" by auto
    have e: "n2 - i = n - Suc i" using p by simp
    show ?thesis using False in' tk r p e d by auto
  qed
qed

lemma Filter_result:
  assumes "wf_view s ix"
  shows "\<exists>a n. Filter s ix f =
           Inr (s\<lparr>arrs := (arrs s)(sptr (Idxs ix) := a)\<rparr>,
                ix\<lparr>Idxs := \<lparr>sptr = sptr (Idxs ix), slen = n\<rparr>\<rparr>) \<and>
         length a = length (arrs s (sptr (Idxs ix))) \<and> n \<le> slen (Idxs ix) \<and>
         take n a = filter (f (deref s (Table ix))) (idxs_of s ix)"
proof -
  let ?p = "sptr (Idxs ix)" and ?n = "slen (Idxs ix)"
  have "?n \<le> length (arrs s ?p)" using assms by (simp add: wf_view_def)
  from filterLoop_inv[OF le_refl this, of "f (deref s (Table ix))"]
  obtain a' n' where r: "filterLoop (f (deref s (Table ix))) ?n (arrs s ?p, ?n) = Inr (a', n')"
    "length a' = length (arrs s ?p)" "n' \<le> ?n"
    "take n' a' = filter (f (deref s (Table ix))) (take ?n (arrs s ?p))" by auto
  then show ?thesis by (auto simp: Filter_def Let_def idxs_of_def)
qed

text \<open>
  C3. On every view whose index slice lies inside its backing array, Filter succeeds and
  leaves as indexes exactly the entries the predicate keeps, in their order (the
  subsequence \<open>filter\<close> computes, so nothing removed comes back); the table is not
  touched; and filtering the result again with the same predicate changes nothing.
\<close>

theorem Filter_stable_compaction:
  assumes "wf_view s ix"
  shows "\<exists>s' ix'. Filter s ix f = Inr (s', ix') \<and> wf_view s' ix' \<and>
           Table ix' = Table ix \<and> tbls s' = tbls s \<and>
           idxs_of s' ix' = filter (f (deref s (Table ix))) (idxs_of s ix) \<and>
           (\<exists>s'' ix''. Filter s' ix' f = Inr (s'', ix'') \<and> idxs_of s'' ix'' = idxs_of s' ix')"
proof -
  from Filter_result[OF assms, of f] obtain a n where
    r: "Filter s ix f = Inr (s\<lparr>arrs := (arrs s)(sptr (Idxs ix) := a)\<rparr>,
                ix\<lparr>Idxs := \<lparr>sptr = sptr (Idxs ix), slen = n\<rparr>\<rparr>)"
       "length a = length (arrs s (sptr (Idxs ix)))" "n \<le> slen (Idxs ix)"
       "take n a = filter (f (deref s (Table ix))) (idxs_of s ix)" by blast
  let ?s' = "s\<lparr>arrs := (arrs s)(sptr (Idxs ix) := a)\<rparr>"
  let ?ix' = "ix\<lparr>Idxs := \<lparr>sptr = sptr (Idxs ix), slen = n\<rparr>\<rparr>"
  have wf': "wf_view ?s' ?ix'" using assms r(2,3) by (simp add: wf_view_def)
  have i1: "idxs_of ?s' ?ix' = filter (f (deref s (Table ix))) (idxs_of s ix)"
    using r(4) by (simp add: idxs_of_def)
  have d: "deref ?s' (Table ?ix') = deref s (Table ix)" by (simp add: deref_def)
  from Filter_result[OF wf', of f] obtain a2 n2 where
    r2: "Filter ?s' ?ix' f = Inr (?s'\<lparr>arrs := (arrs ?s')(sptr (Idxs ?ix') := a2)\<rparr>,
                ?ix'\<lparr>Idxs := \<lparr>sptr = sptr (Idxs ?ix'), slen = n2\<rparr>\<rparr>)"
       "take n2 a2 = filter (f (deref ?s' (Table ?ix'))) (idxs_of ?s' ?ix')" by blast
  have i2: "idxs_of (?s'\<lparr>arrs := (arrs ?s')(sptr (Idxs ?ix') := a2)\<rparr>)
              (?ix'\<lparr>Idxs := \<lparr>sptr = sptr (Idxs ?ix'), slen = n2\<rparr>\<rparr>) = idxs_of ?s' ?ix'"
    using r2(2) unfolding d i1 by (simp add: idxs_of_def)
  show ?thesis using r(1) wf' i1 r2(1) i2 by (intro exI conjI) (assumption | simp)+
qed

text \<open>
  On the example table, keeping the rows with \<open>id \<noteq> 3\<close> leaves the physical rows
  1 and 2, once and twice.
\<close>

theorem Filter_stable_compaction_witness:
  "wf_view ex_state ex_view \<and>
   (\<exists>s' ix'. Filter ex_state ex_view ex_keep = Inr (s', ix') \<and> idxs_of s' ix' = [1, 2] \<and>
      (\<exists>s'' ix''. Filter s' ix' ex_keep = Inr (s'', ix'') \<and> idxs_of s'' ix'' = [1, 2]))"
proof -
  have f: "filter (ex_keep (deref ex_state (Table ex_view))) (idxs_of ex_state ex_view) = [1, 2]"
    by (simp add: ex_idxs ex_deref ex_keep_vals)
  from Filter_stable_compaction[OF ex_wf, of ex_keep] show ?thesis
    unfolding f using ex_wf by metis
qed

section \<open>AggCol\<close>

lemma wrap64_id: "0 \<le> x \<Longrightarrow> x < 2 ^ 63 \<Longrightarrow> wrap64 x = x"
  by (simp add: wrap64_def)

lemma agg_read:
  "0 \<le> i \<Longrightarrow> i < int (Len cl) \<Longrightarrow>
   FloatVal1D cl i = Inr (floatAt (Values cl ! nat i)) \<and> IsNull1D cl i = Inr (isNull (Values cl ! nat i))"
  by (simp add: FloatVal1D_def IsNull1D_def)

lemma aggRows1_fold:
  "\<forall>srw \<in> set idxs. 0 \<le> srw \<and> srw < int (Len cl) \<Longrightarrow>
   aggRows1 cl fn idxs [a] = Inr [foldl (\<lambda>acc srw. agg_step cl fn srw acc) a idxs]"
proof (induction idxs arbitrary: a)
  case Nil
  then show ?case by simp
next
  case (Cons srw idxs)
  then have r: "0 \<le> srw" "srw < int (Len cl)" by simp_all
  show ?case using Cons agg_read[OF r] by (simp add: agg_step_def Let_def)
qed

lemma aggCells_map:
  "distinct js \<Longrightarrow> \<forall>j \<in> set js. j < length ag \<and> 0 \<le> si + int j \<and> si + int j < int (Len cl) \<Longrightarrow>
   Len cl < 2 ^ 63 \<Longrightarrow>
   aggCells cl fn si js ag =
     Inr (map (\<lambda>j. if j \<in> set js then agg_step cl fn (si + int j) (ag ! j) else ag ! j) [0..<length ag])"
proof (induction js arbitrary: ag)
  case Nil
  then show ?case by (simp add: map_nth)
next
  case (Cons j js)
  then have r: "0 \<le> si + int j" "si + int j < int (Len cl)" "j < length ag" "j \<notin> set js" by simp_all
  have w: "iadd si (int j) = si + int j"
    using r Cons.prems(3) by (simp add: iadd_def wrap64_id)
  let ?ag = "ag[j := fn (si + int j) (floatAt (Values cl ! nat (si + int j))) (ag ! j)]"
  have ih: "aggCells cl fn si js ag' =
     Inr (map (\<lambda>j. if j \<in> set js then agg_step cl fn (si + int j) (ag' ! j) else ag' ! j) [0..<length ag'])"
    if "length ag' = length ag" for ag'
    using Cons.IH[of ag'] Cons.prems that by simp
  show ?case
  proof (cases "\<not> isNull (Values cl ! nat (si + int j)) \<and> \<not> IsNaN (floatAt (Values cl ! nat (si + int j)))")
    case True
    have "aggCells cl fn si (j # js) ag = aggCells cl fn si js ?ag"
      using True agg_read[OF r(1,2)] w by simp
    also have "\<dots> = Inr (map (\<lambda>j. if j \<in> set js then agg_step cl fn (si + int j) (?ag ! j) else ?ag ! j) [0..<length ?ag])"
      by (rule ih) simp
    also have "\<dots> = Inr (map (\<lambda>k. if k \<in> set (j # js) then agg_step cl fn (si + int k) (ag ! k) else ag ! k) [0..<length ag])"
      using True r by (auto simp: agg_step_def Let_def nth_list_update)
    finally show ?thesis .
  next
    case False
    have "aggCells cl fn si (j # js) ag = aggCells cl fn si js ag"
      using False agg_read[OF r(1,2)] w by auto
    also have "\<dots> = Inr (map (\<lambda>j. if j \<in> set js then agg_step cl fn (si + int j) (ag ! j) else ag ! j) [0..<length ag])"
      by (rule ih) simp
    also have "\<dots> = Inr (map (\<lambda>k. if k \<in> set (j # js) then agg_step cl fn (si + int k) (ag ! k) else ag ! k) [0..<length ag])"
      using False r by (auto simp: agg_step_def Let_def)
    finally show ?thesis .
  qed
qed

lemma row_bound:
  fixes srw :: int and rows csz j :: nat
  assumes "0 \<le> srw" "srw < int rows" "j < csz" "rows * csz \<le> L"
  shows "0 \<le> srw * int csz + int j" "srw * int csz + int j < int L" "0 \<le> srw * int csz"
proof -
  show "0 \<le> srw * int csz + int j" "0 \<le> srw * int csz" using assms by simp_all
  have "srw + 1 \<le> int rows" using assms by simp
  then have "(srw + 1) * int csz \<le> int rows * int csz" by (rule mult_right_mono) simp
  then have "srw * int csz + int csz \<le> int (rows * csz)" by (simp add: algebra_simps)
  then show "srw * int csz + int j < int L" using assms by linarith
qed

lemma aggRowsN_fold:
  "\<forall>srw \<in> set idxs. 0 \<le> srw \<and> srw < int rows \<Longrightarrow> rows * csz \<le> Len cl \<Longrightarrow> Len cl < 2 ^ 63 \<Longrightarrow>
   length ag = csz \<Longrightarrow>
   aggRowsN cl fn csz idxs ag =
     Inr (map (\<lambda>j. foldl (\<lambda>acc srw. agg_step cl fn (srw * int csz + int j) acc) (ag ! j) idxs) [0..<csz])"
proof (induction idxs arbitrary: ag)
  case Nil
  then show ?case using map_nth[of ag] by simp
next
  case (Cons srw idxs)
  then have r: "0 \<le> srw" "srw < int rows" by simp_all
  have b: "\<forall>j \<in> set [0..<length ag]. j < length ag \<and> 0 \<le> srw * int csz + int j \<and> srw * int csz + int j < int (Len cl)"
    using row_bound[OF r _ Cons.prems(2)] Cons.prems(4) by simp
  have "srw * int csz \<le> int rows * int csz"
    using r by (intro mult_right_mono) simp_all
  then have "srw * int csz \<le> int (Len cl)"
    using Cons.prems(2) by (simp flip: of_nat_mult)
  then have w: "imul srw (int csz) = srw * int csz"
    using r Cons.prems(3) by (simp add: imul_def wrap64_id)
  let ?ag = "map (\<lambda>j. agg_step cl fn (srw * int csz + int j) (ag ! j)) [0..<length ag]"
  have c: "aggCells cl fn (srw * int csz) [0..<length ag] ag = Inr ?ag"
    using aggCells_map[OF _ b Cons.prems(3), of fn] by simp
  have "aggRowsN cl fn csz (srw # idxs) ag = aggRowsN cl fn csz idxs ?ag"
    using c w by simp
  also have "\<dots> = Inr (map (\<lambda>j. foldl (\<lambda>acc srw. agg_step cl fn (srw * int csz + int j) acc) (?ag ! j) idxs) [0..<csz])"
    using Cons.prems by (intro Cons.IH) simp_all
  also have "\<dots> = Inr (map (\<lambda>j. foldl (\<lambda>acc srw. agg_step cl fn (srw * int csz + int j) acc) (ag ! j) (srw # idxs)) [0..<csz])"
  proof -
    have "?ag ! j = agg_step cl fn (srw * int csz + int j) (ag ! j)" if "j < csz" for j
      using that Cons.prems(4) by simp
    then show ?thesis by (simp only: foldl_Cons) simp
  qed
  finally show ?case .
qed

lemma RowCellSize_Inr:
  "RowCellSize cl = Inr (rows, csz) \<Longrightarrow> 0 < rows \<and> csz = Len cl div rows \<and> rows * csz \<le> Len cl"
  by (auto simp: RowCellSize_def split: list.splits if_splits)

lemma agg_spec_one:
  "agg_spec cl fn (Suc 0) idxs ini = [foldl (\<lambda>acc srw. agg_step cl fn srw acc) ini idxs]"
  by (simp add: agg_spec_def)

lemma AggCol_result:
  assumes "Table ix = Some tp"
    and "0 \<le> colIdx" and "colIdx < int (length (Cols (tbls s tp)))"
    and "cl = Cols (tbls s tp) ! nat colIdx"
    and "RowCellSize cl = Inr (rows, csz)"
    and "Len cl < 2 ^ 63"
    and "valid_idxs rows (idxs_of s ix)"
  shows "AggCol s ix colIdx ini fn = Inr (s, ix, agg_spec cl fn csz (idxs_of s ix) ini) \<and>
         length (agg_spec cl fn csz (idxs_of s ix) ini) = csz"
proof -
  from RowCellSize_Inr[OF assms(5)] have rc: "0 < rows" "rows * csz \<le> Len cl" by simp_all
  have v: "\<forall>srw \<in> set (idxs_of s ix). 0 \<le> srw \<and> srw < int rows"
    using assms(7) by (simp add: valid_idxs_def list_all_iff)
  have pre: "AggCol s ix colIdx ini fn =
      (case (if csz = 1 then aggRows1 cl fn (idxs_of s ix) (replicate csz ini)
             else aggRowsN cl fn csz (idxs_of s ix) (replicate csz ini)) of
         Inl e \<Rightarrow> Inl e
       | Inr ag' \<Rightarrow> Inr (s, ix, ag'))"
    using assms(1-3) assms(5)[unfolded assms(4)]
    unfolding AggCol_def Let_def assms(4) by (simp del: One_nat_def)
  have "AggCol s ix colIdx ini fn = Inr (s, ix, agg_spec cl fn csz (idxs_of s ix) ini)"
  proof (cases "csz = 1")
    case True
    have "\<forall>srw \<in> set (idxs_of s ix). 0 \<le> srw \<and> srw < int (Len cl)"
      using v rc True by auto
    from aggRows1_fold[OF this, of fn ini] show ?thesis
      unfolding pre using True by (simp add: agg_spec_one)
  next
    case False
    have "aggRowsN cl fn csz (idxs_of s ix) (replicate csz ini) =
      Inr (map (\<lambda>j. foldl (\<lambda>acc srw. agg_step cl fn (srw * int csz + int j) acc)
                  (replicate csz ini ! j) (idxs_of s ix)) [0..<csz])"
      by (rule aggRowsN_fold[OF v rc(2) assms(6)]) simp
    then show ?thesis unfolding pre using False by (simp add: agg_spec_def)
  qed
  then show ?thesis by (simp add: agg_spec_def)
qed

lemma ex_agg_idxs: "idxs_of ex_agg_state ex_agg_view = [0, 1, 2, 3]"
  by (simp add: idxs_of_def ex_agg_state_def ex_agg_view_def)

text \<open>
  C5. On a view whose indexes are rows of the column, AggCol returns a result of length
  \<open>csz\<close> whose slot \<open>j\<close> is the initial value folded with the reducer over the
  elements \<open>srw * csz + j\<close> in index order, an element that is null or NaN being
  skipped; neither the store nor the view changes.
\<close>

theorem AggCol_reduces_in_index_order:
  assumes "Table ix = Some tp"
    and "0 \<le> colIdx" and "colIdx < int (length (Cols (tbls s tp)))"
    and "cl = Cols (tbls s tp) ! nat colIdx"
    and "RowCellSize cl = Inr (rows, csz)"
    and "Len cl < 2 ^ 63"
    and "valid_idxs rows (idxs_of s ix)"
  shows "AggCol s ix colIdx ini fn = Inr (s, ix, agg_spec cl fn csz (idxs_of s ix) ini) \<and>
         length (agg_spec cl fn csz (idxs_of s ix) ini) = csz"
  using assms by (rule AggCol_result)

text \<open>
  The specification's example: the column \<open>[1.0, NaN, 3.0, null]\<close>, initial value 0,
  a sum reducer; the result is \<open>[4.0]\<close>.
\<close>

theorem AggCol_reduces_in_index_order_witness:
  "Table ex_agg_view = Some 0 \<and> ex_x = Cols (tbls ex_agg_state 0) ! nat 0 \<and>
   RowCellSize ex_x = Inr (4, 1) \<and> Len ex_x < 2 ^ 63 \<and>
   valid_idxs 4 (idxs_of ex_agg_state ex_agg_view) \<and>
   AggCol ex_agg_state ex_agg_view 0 (Fin 0) ex_sum = Inr (ex_agg_state, ex_agg_view, [Fin 4])"
proof -
  have h: "Table ex_agg_view = Some 0" "(0::int) \<le> 0"
    "0 < int (length (Cols (tbls ex_agg_state 0)))"
    "ex_x = Cols (tbls ex_agg_state 0) ! nat 0"
    "RowCellSize ex_x = Inr (4, 1)" "Len ex_x < 2 ^ 63"
    "valid_idxs 4 (idxs_of ex_agg_state ex_agg_view)"
    by (simp_all add: ex_agg_view_def ex_agg_state_def RowCellSize_def ex_x_def Len_def
          valid_idxs_def idxs_of_def)
  have "agg_spec ex_x ex_sum 1 (idxs_of ex_agg_state ex_agg_view) (Fin 0) = [Fin 4]"
    by (simp add: ex_agg_idxs agg_spec_def agg_step_def ex_x_def ex_sum_def fl_def)
  with AggCol_reduces_in_index_order[OF h, of "Fin 0" ex_sum] h show ?thesis by simp
qed

text \<open>
  C6. A column index below 0 or not below the number of columns makes AggCol fail with
  the index-out-of-range panic of the access \<open>ix.Table.Cols[colIdx]\<close>; no result is
  produced.
\<close>

theorem AggCol_column_out_of_range:
  assumes "Table ix = Some tp"
    and "colIdx < 0 \<or> int (length (Cols (tbls s tp))) \<le> colIdx"
  shows "AggCol s ix colIdx ini fn = Inl IndexOutOfRange"
  using assms by (auto simp: AggCol_def)

text \<open>The example table has two columns: the column indexes 2 and -1 are refused.\<close>

theorem AggCol_column_out_of_range_witness:
  "Table ex_view = Some 0 \<and> int (length (Cols (tbls ex_state 0))) \<le> 2 \<and>
   AggCol ex_state ex_view 2 (Fin 0) ex_sum = Inl IndexOutOfRange \<and>
   AggCol ex_state ex_view (- 1) (Fin 0) ex_sum = Inl IndexOutOfRange"
proof -
  have h: "Table ex_view = Some 0" by (simp add: ex_view_def)
  have b: "int (length (Cols (tbls ex_state 0))) \<le> 2"
    by (simp add: ex_state_def ex_state0_def ex_table_def)
  show ?thesis
    using AggCol_column_out_of_range[OF h, of 2 ex_state "Fin 0" ex_sum]
      AggCol_column_out_of_range[OF h, of "- 1" ex_state "Fin 0" ex_sum] h b by simp
qed

section \<open>The comparator of SortCols\<close>

text \<open>
  On a string key, in both directions, and on a numeric key in descending direction, the
  comparator decides on the first key unless its two values are equal.
\<close>

lemma SortCols_less_string_key:
  assumes "et = Some t" and "0 \<le> ci" and "ci < int (length (Cols t))"
    and "cl = Cols t ! nat ci" and "DataType cl = STRING"
    and "StringVal1D cl i = Inr si" and "StringVal1D cl j = Inr sj"
  shows "SortCols_less (ci # colIdxs) ascending et i j =
           (if si = sj then SortCols_less colIdxs ascending et i j
            else Inr (if ascending then si < sj else sj < si))"
  using assms(1-3,5-7) unfolding assms(4) by (auto simp: Let_def)

lemma SortCols_less_numeric_descending:
  assumes "et = Some t" and "0 \<le> ci" and "ci < int (length (Cols t))"
    and "cl = Cols t ! nat ci" and "DataType cl \<noteq> STRING"
    and "FloatVal1D cl i = Inr (Fin x)" and "FloatVal1D cl j = Inr (Fin y)"
  shows "SortCols_less (ci # colIdxs) False et i j =
           (if x = y then SortCols_less colIdxs False et i j else Inr (y < x))"
  using assms(1-3,5-7) unfolding assms(4) by (auto simp: Let_def fgt_def)

text \<open>
  The ascending numeric branch stops only when the first key is less: a greater first key
  goes on to the next column like an equal one.
\<close>

lemma SortCols_less_numeric_ascending:
  assumes "et = Some t" and "0 \<le> ci" and "ci < int (length (Cols t))"
    and "cl = Cols t ! nat ci" and "DataType cl \<noteq> STRING"
    and "FloatVal1D cl i = Inr (Fin x)" and "FloatVal1D cl j = Inr (Fin y)"
  shows "SortCols_less (ci # colIdxs) True et i j =
           (if x < y then Inr True else SortCols_less colIdxs True et i j)"
  using assms(1-3,5-7) unfolding assms(4) by (auto simp: Let_def)

text \<open>
  C1. The comparator evaluated on two numeric key columns, \<open>colA = [2, 1]\<close> and
  \<open>colB = [1, 2]\<close>, ascending. Row 0 is greater than row 1 on the first key, yet the
  comparator goes on to the second key and answers that row 0 is less than row 1; it also
  answers that row 1 is less than row 0. With the first key alone row 0 is not less. The
  descending branch, and the string branches, test \<open>>\<close> and \<open><\<close> in turn; the
  ascending numeric branch tests \<open><\<close> twice, so a greater first key falls through to
  the next column as if it were equal.
\<close>

theorem SortCols_less_float_ascending_slip:
  "SortCols_less [0, 1] True (Some ex_ab) 0 1 = Inr True \<and>
   SortCols_less [0, 1] True (Some ex_ab) 1 0 = Inr True \<and>
   SortCols_less [0] True (Some ex_ab) 0 1 = Inr False \<and>
   SortCols_less [0, 1] False (Some ex_ab) 1 0 = Inr False \<and>
   SortCols_less [0, 1] False (Some ex_ab) 0 1 = Inr True"
  by (simp add: ex_ab_def FloatVal1D_def Len_def fl_def fgt_def)

section \<open>ClosestRow32 and ClosestRow64\<close>

lemma closestLoop_runs:
  "\<forall>ri \<in> set ris. ri * csz + csz \<le> length cv \<Longrightarrow>
   \<exists>ci' mv. closestLoop mfun pv cv csz ris (lg, ci, minv) = (lg @ ris, Inr (ci', mv))"
proof (induction ris arbitrary: lg ci minv)
  case Nil
  then show ?case by simp
next
  case (Cons ri ris)
  then have b: "\<not> length cv < ri * csz + csz" by simp
  from Cons have ih: "\<exists>ci' mv. closestLoop mfun pv cv csz ris (lg', c, m) = (lg' @ ris, Inr (ci', mv))"
    for lg' c m by simp
  show ?case
  proof (cases "flt (mfun pv (take csz (drop (ri * csz) cv))) minv")
    case True
    then show ?thesis
      using b ih[of "lg @ [ri]" "int ri" "mfun pv (take csz (drop (ri * csz) cv))"]
      by (simp add: Let_def)
  next
    case False
    then show ?thesis using b ih[of "lg @ [ri]" ci minv] by (simp add: Let_def)
  qed
qed

lemma rows_fit:
  assumes "0 < rows"
  shows "\<forall>ri \<in> set [0..<rows]. ri * (Len col div rows) + Len col div rows \<le> length (Floats col)"
proof
  fix ri assume "ri \<in> set [0..<rows]"
  then have "Suc ri \<le> rows" by simp
  then have "Suc ri * (Len col div rows) \<le> rows * (Len col div rows)"
    by (rule mult_le_mono1)
  also have "\<dots> \<le> Len col" by simp
  finally show "ri * (Len col div rows) + Len col div rows \<le> length (Floats col)"
    by (simp add: Floats_def Len_def)
qed

text \<open>
  A column without rows has no cell size: the division \<open>col.Len() / rows\<close> panics,
  again before any row is examined.
\<close>

lemma ClosestRow_zero_rows:
  "Dim0 col = Inr 0 \<Longrightarrow>
   ClosestRow32 probe col m32 = ([], Inl DivideByZero) \<and>
   ClosestRow64 probe col m64 = ([], Inl DivideByZero)"
  by (simp add: ClosestRow32_def ClosestRow64_def)

text \<open>
  C9. For a column with rows, whose cell size is \<open>col.Len() / rows\<close>: when the probe's
  length differs from the cell size, ClosestRow32 and ClosestRow64 panic with their
  message and have examined no row; when the sizes agree, both return a row and a metric
  value after examining the rows \<open>0..rows-1\<close> in order.
\<close>

theorem ClosestRow_shape_check:
  assumes "Dim0 col = Inr rows" and "0 < rows"
  shows "(Len col div rows \<noteq> Len probe \<longrightarrow>
            ClosestRow32 probe col m32 =
              ([], Inl (Panic ''metric.ClosestRow32: probe size != cell size of tensor column!'')) \<and>
            ClosestRow64 probe col m64 =
              ([], Inl (Panic ''metric.ClosestRow64: probe size != cell size of tensor column!''))) \<and>
         (Len col div rows = Len probe \<longrightarrow>
            (\<exists>ci mv. ClosestRow32 probe col m32 = ([0..<rows], Inr (ci, mv))) \<and>
            (\<exists>ci mv. ClosestRow64 probe col m64 = ([0..<rows], Inr (ci, mv))))"
proof (intro conjI impI)
  assume ne: "Len col div rows \<noteq> Len probe"
  show "ClosestRow32 probe col m32 =
      ([], Inl (Panic ''metric.ClosestRow32: probe size != cell size of tensor column!''))"
    using assms ne by (simp add: ClosestRow32_def Let_def)
  show "ClosestRow64 probe col m64 =
      ([], Inl (Panic ''metric.ClosestRow64: probe size != cell size of tensor column!''))"
    using assms ne by (simp add: ClosestRow64_def Let_def)
next
  assume eq: "Len col div rows = Len probe"
  from closestLoop_runs[OF rows_fit[OF assms(2), of col], of m32 "Floats probe" "[]" "- 1" MaxFloat32]
  show "\<exists>ci mv. ClosestRow32 probe col m32 = ([0..<rows], Inr (ci, mv))"
    using assms eq by (simp add: ClosestRow32_def Let_def)
  from closestLoop_runs[OF rows_fit[OF assms(2), of col], of m64 "Floats probe" "[]" "- 1" MaxFloat64]
  show "\<exists>ci mv. ClosestRow64 probe col m64 = ([0..<rows], Inr (ci, mv))"
    using assms eq by (simp add: ClosestRow64_def Let_def)
qed

lemma upt2: "[0..<2] = [0, Suc 0]" by (simp add: upt_rec)

lemma ex_tensor_facts:
  "Dim0 ex_col = Inr 2" "Len ex_col = 4" "Len ex_probe = 2" "Len ex_probe3 = 3"
  "Floats ex_col = [Fin 1, Fin 2, Fin 3, Fin 4]" "Floats ex_probe = [Fin 3, Fin 4]"
  "DataType ex_col = FLOAT64" "DataType ex_probe = FLOAT64"
  by (simp_all add: Dim0_def Len_def Floats_def ex_col_def ex_probe_def ex_probe3_def fl_def)

text \<open>
  A probe of three elements against cells of two is refused; the probe \<open>[3, 4]\<close> finds
  row 1 at distance 0.
\<close>

theorem ClosestRow_shape_check_witness:
  "Dim0 ex_col = Inr 2 \<and> (0::nat) < 2 \<and> Len ex_col div 2 \<noteq> Len ex_probe3 \<and>
   Len ex_col div 2 = Len ex_probe \<and>
   ClosestRow32 ex_probe3 ex_col ex_metric =
     ([], Inl (Panic ''metric.ClosestRow32: probe size != cell size of tensor column!'')) \<and>
   ClosestRow64 ex_probe3 ex_col ex_metric =
     ([], Inl (Panic ''metric.ClosestRow64: probe size != cell size of tensor column!'')) \<and>
   ClosestRow32 ex_probe ex_col ex_metric = ([0, 1], Inr (1, Fin 0)) \<and>
   ClosestRow64 ex_probe ex_col ex_metric = ([0, 1], Inr (1, Fin 0))"
proof -
  have h: "Dim0 ex_col = Inr 2" "(0::nat) < 2"
    by (simp_all add: ex_tensor_facts)
  have n: "Len ex_col div 2 \<noteq> Len ex_probe3" "Len ex_col div 2 = Len ex_probe"
    by (simp_all add: ex_tensor_facts)
  have r: "ClosestRow32 ex_probe ex_col ex_metric = ([0, 1], Inr (1, Fin 0))"
    "ClosestRow64 ex_probe ex_col ex_metric = ([0, 1], Inr (1, Fin 0))"
    unfolding ClosestRow32_def ClosestRow64_def MaxFloat32_def MaxFloat64_def
    by (simp_all add: ex_tensor_facts upt2 ex_metric_def Let_def)
  from ClosestRow_shape_check[OF h, of ex_probe3 ex_metric ex_metric] n r h
  show ?thesis by simp
qed

section \<open>NewTable\<close>

lemma CopyCellsFrom_ok:
  assumes "to + n \<le> length (Values tsr)" "start + n \<le> length (Values frm)"
  shows "CopyCellsFrom tsr frm (int to) (int start) (int n) =
           Inr (tsr\<lparr>Values := take to (Values tsr) @ take n (drop start (Values frm))
                  @ drop (to + n) (Values tsr)\<rparr>)"
  using assms by (simp add: CopyCellsFrom_def Len_def flip: of_nat_add)

lemma cell_length: "r * csz + csz \<le> length (Values c) \<Longrightarrow> length (cell c csz r) = csz"
  by (simp add: cell_def)

lemma row_fits:
  fixes srw :: int
  assumes "0 \<le> srw" "srw < int rows" "rows * csz \<le> L"
  shows "nat srw * csz + csz \<le> L"
proof -
  have "Suc (nat srw) \<le> rows" using assms by simp
  then have "Suc (nat srw) * csz \<le> rows * csz" by (rule mult_le_mono1)
  then show ?thesis using assms(3) by simp
qed

lemma imul_nat: "a * b < 2 ^ 63 \<Longrightarrow> imul (int a) (int b) = int (a * b)"
  by (simp add: imul_def wrap64_id flip: of_nat_mult)

lemma copyRows_gather:
  assumes "list_all (\<lambda>srw. 0 \<le> srw \<and> srw < int rows) idxs"
    and "rows * csz \<le> length (Values scl)" and "length (Values scl) < 2 ^ 63"
    and "Values tcl = pre @ suf" and "length pre = i * csz" and "length suf = length idxs * csz"
    and "(i + length idxs) * csz < 2 ^ 63"
  shows "copyRows scl csz i idxs (tcl, k) =
           Inr (tcl\<lparr>Values := pre @ concat (map (\<lambda>srw. cell scl csz (nat srw)) idxs)\<rparr>,
                k + length idxs)"
  using assms
proof (induction idxs arbitrary: i tcl k pre suf)
  case Nil
  then show ?case by simp
next
  case (Cons srw idxs)
  then have r: "0 \<le> srw" "srw < int rows" by simp_all
  note fit = row_fits[OF r Cons.prems(2)]
  have "i * csz \<le> (i + length (srw # idxs)) * csz" by (rule mult_le_mono1) simp
  then have w1: "imul (int i) (int csz) = int (i * csz)"
    using Cons.prems(7) by (intro imul_nat) linarith
  have "nat srw * csz < 2 ^ 63" using fit Cons.prems(3) by linarith
  then have "imul (int (nat srw)) (int csz) = int (nat srw * csz)" by (rule imul_nat)
  then have w2: "imul srw (int csz) = int (nat srw * csz)" using r by simp
  have b1: "i * csz + csz \<le> length (Values tcl)" using Cons.prems(4,5,6) by simp
  let ?tcl = "tcl\<lparr>Values := (pre @ cell scl csz (nat srw)) @ drop csz suf\<rparr>"
  have c: "CopyCellsFrom tcl scl (imul (int i) (int csz)) (imul srw (int csz)) (int csz) = Inr ?tcl"
    unfolding w1 w2 CopyCellsFrom_ok[OF b1 fit]
    using Cons.prems(4,5) by (simp add: cell_def)
  have "copyRows scl csz (Suc i) idxs (?tcl, Suc k) =
      Inr (?tcl\<lparr>Values := (pre @ cell scl csz (nat srw)) @
              concat (map (\<lambda>srw. cell scl csz (nat srw)) idxs)\<rparr>, Suc k + length idxs)"
  proof (rule Cons.IH)
    show "list_all (\<lambda>srw. 0 \<le> srw \<and> srw < int rows) idxs" using Cons.prems(1) by simp
    show "length (pre @ cell scl csz (nat srw)) = Suc i * csz"
      using Cons.prems(5) cell_length[OF fit] by simp
    show "length (drop csz suf) = length idxs * csz" using Cons.prems(6) by simp
    show "(Suc i + length idxs) * csz < 2 ^ 63" using Cons.prems(7) by simp
  qed (use Cons.prems in simp_all)
  then show ?case using c by simp
qed

lemma copyCols_gather:
  assumes "list_all (\<lambda>srw. 0 \<le> srw \<and> srw < int rows) idxs"
    and "distinct cols"
    and "\<forall>ci \<in> set cols. ci < length scols \<and> ci < length (Cols nt) \<and>
           RowCellSize (Cols nt ! ci) = Inr (length idxs, cellSize (scols ! ci)) \<and>
           length (Values (Cols nt ! ci)) = length idxs * cellSize (scols ! ci) \<and>
           rows * cellSize (scols ! ci) \<le> length (Values (scols ! ci)) \<and>
           length (Values (scols ! ci)) < 2 ^ 63 \<and>
           length idxs * cellSize (scols ! ci) < 2 ^ 63"
  shows "copyCols scols idxs cols (nt, k) =
           Inr (nt\<lparr>Cols := map (\<lambda>ci. if ci \<in> set cols
                                      then (Cols nt ! ci)\<lparr>Values := gather (scols ! ci) idxs\<rparr>
                                      else Cols nt ! ci) [0..<length (Cols nt)]\<rparr>,
                k + length cols * length idxs)"
  using assms(2,3)
proof (induction cols arbitrary: nt k)
  case Nil
  then show ?case by (simp add: map_nth)
next
  case (Cons ci cols)
  let ?scl = "scols ! ci" and ?tcl = "Cols nt ! ci"
  from Cons.prems have p: "ci < length scols" "ci < length (Cols nt)" "ci \<notin> set cols"
    "RowCellSize ?tcl = Inr (length idxs, cellSize ?scl)"
    "length (Values ?tcl) = length idxs * cellSize ?scl"
    "rows * cellSize ?scl \<le> length (Values ?scl)" "length (Values ?scl) < 2 ^ 63"
    "length idxs * cellSize ?scl < 2 ^ 63" by simp_all
  have "copyRows ?scl (cellSize ?scl) 0 idxs (?tcl, k) =
      Inr (?tcl\<lparr>Values := [] @ concat (map (\<lambda>srw. cell ?scl (cellSize ?scl) (nat srw)) idxs)\<rparr>,
           k + length idxs)"
    by (rule copyRows_gather[OF assms(1) p(6,7), where suf = "Values ?tcl"]) (use p in simp_all)
  then have cr: "copyRows ?scl (cellSize ?scl) 0 idxs (?tcl, k) =
      Inr (?tcl\<lparr>Values := gather ?scl idxs\<rparr>, k + length idxs)"
    by (simp add: gather_def)
  let ?nt = "nt\<lparr>Cols := (Cols nt)[ci := ?tcl\<lparr>Values := gather ?scl idxs\<rparr>]\<rparr>"
  have step: "copyCols scols idxs (ci # cols) (nt, k) = copyCols scols idxs cols (?nt, k + length idxs)"
    using p(1,4) cr by (simp add: Let_def)
  have pre: "\<forall>cj \<in> set cols. cj < length scols \<and> cj < length (Cols ?nt) \<and>
           RowCellSize (Cols ?nt ! cj) = Inr (length idxs, cellSize (scols ! cj)) \<and>
           length (Values (Cols ?nt ! cj)) = length idxs * cellSize (scols ! cj) \<and>
           rows * cellSize (scols ! cj) \<le> length (Values (scols ! cj)) \<and>
           length (Values (scols ! cj)) < 2 ^ 63 \<and>
           length idxs * cellSize (scols ! cj) < 2 ^ 63"
  proof
    fix cj assume cj: "cj \<in> set cols"
    then have "cj \<noteq> ci" using p(3) by auto
    then have "Cols ?nt ! cj = Cols nt ! cj" by simp
    then show "cj < length scols \<and> cj < length (Cols ?nt) \<and>
           RowCellSize (Cols ?nt ! cj) = Inr (length idxs, cellSize (scols ! cj)) \<and>
           length (Values (Cols ?nt ! cj)) = length idxs * cellSize (scols ! cj) \<and>
           rows * cellSize (scols ! cj) \<le> length (Values (scols ! cj)) \<and>
           length (Values (scols ! cj)) < 2 ^ 63 \<and>
           length idxs * cellSize (scols ! cj) < 2 ^ 63"
      using Cons.prems(2) cj by simp
  qed
  have d: "distinct cols" using Cons.prems(1) by simp
  have "copyCols scols idxs cols (?nt, k + length idxs) =
      Inr (?nt\<lparr>Cols := map (\<lambda>cj. if cj \<in> set cols
                                      then (Cols ?nt ! cj)\<lparr>Values := gather (scols ! cj) idxs\<rparr>
                                      else Cols ?nt ! cj) [0..<length (Cols ?nt)]\<rparr>,
                k + length idxs + length cols * length idxs)"
    by (rule Cons.IH[OF d pre])
  also have "map (\<lambda>cj. if cj \<in> set cols
                                      then (Cols ?nt ! cj)\<lparr>Values := gather (scols ! cj) idxs\<rparr>
                                      else Cols ?nt ! cj) [0..<length (Cols ?nt)] =
     map (\<lambda>cj. if cj \<in> set (ci # cols)
                                      then (Cols nt ! cj)\<lparr>Values := gather (scols ! cj) idxs\<rparr>
                                      else Cols nt ! cj) [0..<length (Cols nt)]"
    using p(2,3) by (auto simp: nth_list_update)
  finally show ?case unfolding step by simp
qed

lemma New_Cols_length: "length (Cols (New (Schema t) rows)) = length (Cols t)"
  by (simp add: New_def Schema_def)

lemma New_Cols_nth:
  "ci < length (Cols t) \<Longrightarrow>
   Cols (New (Schema t) rows) ! ci =
     (Cols t ! ci)\<lparr>Shape := rows # tl (Shape (Cols t ! ci)),
                   Values := replicate (rows * cellSize (Cols t ! ci)) zero_elem\<rparr>"
  by (simp add: New_def Schema_def cellSize_def)

lemma materialize_New:
  "(New (Schema t) (length idxs))\<lparr>Cols :=
      map (\<lambda>ci. (Cols (New (Schema t) (length idxs)) ! ci)\<lparr>Values := gather (Cols t ! ci) idxs\<rparr>)
        [0..<length (Cols t)]\<rparr> = materialize t idxs"
proof -
  have "map (\<lambda>ci. (Cols (New (Schema t) (length idxs)) ! ci)\<lparr>Values := gather (Cols t ! ci) idxs\<rparr>)
        [0..<length (Cols t)] = Cols (materialize t idxs)"
    by (rule nth_equalityI) (simp_all add: materialize_def New_Cols_nth)
  then show ?thesis by (simp add: materialize_def New_def)
qed

lemma New_empty: "New (Schema t) 0 = materialize t []"
proof -
  have "Cols (New (Schema t) 0) = Cols (materialize t [])"
    by (rule nth_equalityI) (simp_all add: materialize_def New_Cols_nth New_Cols_length gather_def)
  then show ?thesis by (simp add: materialize_def New_def)
qed

lemma wf_view_length: "wf_view s ix \<Longrightarrow> length (idxs_of s ix) = slen (Idxs ix)"
  by (simp add: wf_view_def idxs_of_def)

lemma NewTable_result:
  assumes "Table ix = Some tp" and "wf_view s ix" and "wf_table (tbls s tp)"
    and "valid_idxs (Rows (tbls s tp)) (idxs_of s ix)"
    and "fits (tbls s tp) (slen (Idxs ix))"
  shows "NewTable s ix =
           Inr (s\<lparr>tbls := (tbls s)(tnext s := materialize (tbls s tp) (idxs_of s ix)),
                  tnext := Suc (tnext s),
                  copies := copies s + length (Cols (tbls s tp)) * slen (Idxs ix)\<rparr>,
                ix, tnext s)"
proof (cases "slen (Idxs ix) = 0")
  case True
  then have "idxs_of s ix = []" by (simp add: idxs_of_def)
  then show ?thesis using True assms(1) by (simp add: NewTable_def Let_def New_empty)
next
  case False
  let ?t = "tbls s tp" and ?idxs = "idxs_of s ix"
  let ?nt = "New (Schema ?t) (length ?idxs)"
  have len: "length ?idxs = slen (Idxs ix)" by (rule wf_view_length[OF assms(2)])
  have v: "list_all (\<lambda>srw. 0 \<le> srw \<and> srw < int (Rows ?t)) ?idxs"
    using assms(4) by (simp add: valid_idxs_def)
  have pre: "\<forall>ci \<in> set [0..<length (Cols ?nt)]. ci < length (Cols ?t) \<and> ci < length (Cols ?nt) \<and>
           RowCellSize (Cols ?nt ! ci) = Inr (length ?idxs, cellSize (Cols ?t ! ci)) \<and>
           length (Values (Cols ?nt ! ci)) = length ?idxs * cellSize (Cols ?t ! ci) \<and>
           Rows ?t * cellSize (Cols ?t ! ci) \<le> length (Values (Cols ?t ! ci)) \<and>
           length (Values (Cols ?t ! ci)) < 2 ^ 63 \<and>
           length ?idxs * cellSize (Cols ?t ! ci) < 2 ^ 63"
  proof
    fix ci assume "ci \<in> set [0..<length (Cols ?nt)]"
    then have ci: "ci < length (Cols ?t)" by (simp add: New_Cols_length)
    then have m: "Cols ?t ! ci \<in> set (Cols ?t)" by simp
    have w: "wf_column (Rows ?t) (Cols ?t ! ci)"
      using assms(3) m by (simp add: wf_table_def list_all_iff)
    have f: "length ?idxs * cellSize (Cols ?t ! ci) < 2 ^ 63"
      using assms(5) m len by (simp add: fits_def list_all_iff)
    have r: "RowCellSize (Cols ?nt ! ci) = Inr (length ?idxs, cellSize (Cols ?t ! ci))"
      using False len ci by (simp add: New_Cols_nth RowCellSize_def Len_def)
    show "ci < length (Cols ?t) \<and> ci < length (Cols ?nt) \<and>
           RowCellSize (Cols ?nt ! ci) = Inr (length ?idxs, cellSize (Cols ?t ! ci)) \<and>
           length (Values (Cols ?nt ! ci)) = length ?idxs * cellSize (Cols ?t ! ci) \<and>
           Rows ?t * cellSize (Cols ?t ! ci) \<le> length (Values (Cols ?t ! ci)) \<and>
           length (Values (Cols ?t ! ci)) < 2 ^ 63 \<and>
           length ?idxs * cellSize (Cols ?t ! ci) < 2 ^ 63"
      using ci w f r by (simp add: New_Cols_length New_Cols_nth wf_column_def)
  qed
  have "copyCols (Cols ?t) ?idxs [0..<length (Cols ?nt)] (?nt, copies s) =
      Inr (?nt\<lparr>Cols := map (\<lambda>ci. if ci \<in> set [0..<length (Cols ?nt)]
                                      then (Cols ?nt ! ci)\<lparr>Values := gather (Cols ?t ! ci) ?idxs\<rparr>
                                      else Cols ?nt ! ci) [0..<length (Cols ?nt)]\<rparr>,
           copies s + length [0..<length (Cols ?nt)] * length ?idxs)"
    by (rule copyCols_gather[OF v _ pre]) simp
  also have "map (\<lambda>ci. if ci \<in> set [0..<length (Cols ?nt)]
                                      then (Cols ?nt ! ci)\<lparr>Values := gather (Cols ?t ! ci) ?idxs\<rparr>
                                      else Cols ?nt ! ci) [0..<length (Cols ?nt)] =
     map (\<lambda>ci. (Cols ?nt ! ci)\<lparr>Values := gather (Cols ?t ! ci) ?idxs\<rparr>) [0..<length (Cols ?t)]"
    by (simp add: New_Cols_length)
  finally have cc: "copyCols (Cols ?t) ?idxs [0..<length (Cols ?nt)] (?nt, copies s) =
      Inr (materialize ?t ?idxs, copies s + length (Cols ?t) * length ?idxs)"
    by (simp add: materialize_New New_Cols_length)
  show ?thesis
    using False assms(1) cc[unfolded len] by (simp add: NewTable_def Let_def)
qed

lemma concat_chunk:
  "\<forall>x \<in> set xs. length (f x) = n \<Longrightarrow> i < length xs \<Longrightarrow>
   take n (drop (i * n) (concat (map f xs))) = f (xs ! i)"
proof (induction xs arbitrary: i)
  case Nil
  then show ?case by simp
next
  case (Cons x xs)
  show ?case
  proof (cases i)
    case 0
    then show ?thesis using Cons.prems by simp
  next
    case (Suc k)
    then show ?thesis using Cons by simp
  qed
qed

lemma concat_chunk_length:
  "\<forall>x \<in> set xs. length (f x) = n \<Longrightarrow> length (concat (map f xs)) = length xs * n"
  by (induction xs) simp_all

lemma gather_cells:
  assumes "wf_column rows c" and "valid_idxs rows idxs"
  shows "length (gather c idxs) = length idxs * cellSize c"
    and "i < length idxs \<Longrightarrow>
         take (cellSize c) (drop (i * cellSize c) (gather c idxs)) = cell c (cellSize c) (nat (idxs ! i))"
proof -
  have l: "\<forall>srw \<in> set idxs. length (cell c (cellSize c) (nat srw)) = cellSize c"
  proof
    fix srw assume "srw \<in> set idxs"
    then have "0 \<le> srw" "srw < int rows" using assms(2) by (simp_all add: valid_idxs_def list_all_iff)
    from row_fits[OF this, of "cellSize c" "length (Values c)"] assms(1)
    show "length (cell c (cellSize c) (nat srw)) = cellSize c"
      by (intro cell_length) (simp add: wf_column_def)
  qed
  show "length (gather c idxs) = length idxs * cellSize c"
    unfolding gather_def by (rule concat_chunk_length[OF l])
  show "take (cellSize c) (drop (i * cellSize c) (gather c idxs)) = cell c (cellSize c) (nat (idxs ! i))"
    if "i < length idxs"
    unfolding gather_def by (rule concat_chunk[OF l that])
qed

lemma materialize_Schema: "Schema (materialize t idxs) = Schema t"
  by (simp add: materialize_def Schema_def)

lemma NewTable_empty:
  assumes "Table ix = Some tp" and "slen (Idxs ix) = 0"
  shows "NewTable s ix =
           Inr (s\<lparr>tbls := (tbls s)(tnext s := materialize (tbls s tp) []), tnext := Suc (tnext s)\<rparr>,
                ix, tnext s)"
  using assms by (simp add: NewTable_def Let_def New_empty)

text \<open>
  C7. NewTable on a view with a table. If the view is empty, it returns a new table with
  the schema of the source, no rows and no values, and CopyCellsFrom has not been called.
  If the indexes of the view are rows of a well-formed table, it returns a new table with
  the schema of the source and as many rows as the view has indexes, in which the cell of
  logical row \<open>i\<close> of every column (the \<open>csz\<close> elements from offset \<open>i * csz\<close>) is
  the cell of row \<open>Idxs[i]\<close> of the source column (from offset \<open>Idxs[i] * csz\<close>);
  CopyCellsFrom has been called once per column and index. The view is returned unchanged.
\<close>

theorem NewTable_materializes:
  assumes "Table ix = Some tp"
  shows "(slen (Idxs ix) = 0 \<longrightarrow>
           (\<exists>s'. NewTable s ix = Inr (s', ix, tnext s) \<and> copies s' = copies s \<and>
                 Schema (tbls s' (tnext s)) = Schema (tbls s tp) \<and>
                 Rows (tbls s' (tnext s)) = 0 \<and>
                 list_all (\<lambda>c. Values c = []) (Cols (tbls s' (tnext s))))) \<and>
         (wf_view s ix \<and> wf_table (tbls s tp) \<and> valid_idxs (Rows (tbls s tp)) (idxs_of s ix) \<and>
          fits (tbls s tp) (slen (Idxs ix)) \<longrightarrow>
           (\<exists>s'. NewTable s ix = Inr (s', ix, tnext s) \<and>
                 tbls s' (tnext s) = materialize (tbls s tp) (idxs_of s ix) \<and>
                 Schema (tbls s' (tnext s)) = Schema (tbls s tp) \<and>
                 Rows (tbls s' (tnext s)) = slen (Idxs ix) \<and>
                 length (Cols (tbls s' (tnext s))) = length (Cols (tbls s tp)) \<and>
                 copies s' = copies s + length (Cols (tbls s tp)) * slen (Idxs ix) \<and>
                 (\<forall>ci < length (Cols (tbls s tp)).
                    Len (Cols (tbls s' (tnext s)) ! ci) =
                      slen (Idxs ix) * cellSize (Cols (tbls s tp) ! ci) \<and>
                    (\<forall>i < slen (Idxs ix).
                       cell (Cols (tbls s' (tnext s)) ! ci) (cellSize (Cols (tbls s tp) ! ci)) i =
                       cell (Cols (tbls s tp) ! ci) (cellSize (Cols (tbls s tp) ! ci))
                         (nat (idxs_of s ix ! i))))))"
proof (intro conjI impI)
  assume e: "slen (Idxs ix) = 0"
  show "\<exists>s'. NewTable s ix = Inr (s', ix, tnext s) \<and> copies s' = copies s \<and>
                 Schema (tbls s' (tnext s)) = Schema (tbls s tp) \<and>
                 Rows (tbls s' (tnext s)) = 0 \<and>
                 list_all (\<lambda>c. Values c = []) (Cols (tbls s' (tnext s)))"
    unfolding NewTable_empty[OF assms e]
    by (simp add: materialize_Schema) (simp add: materialize_def gather_def list_all_iff)
next
  let ?t = "tbls s tp" and ?idxs = "idxs_of s ix"
  assume h: "wf_view s ix \<and> wf_table ?t \<and> valid_idxs (Rows ?t) ?idxs \<and> fits ?t (slen (Idxs ix))"
  then have r: "NewTable s ix =
           Inr (s\<lparr>tbls := (tbls s)(tnext s := materialize ?t ?idxs),
                  tnext := Suc (tnext s),
                  copies := copies s + length (Cols ?t) * slen (Idxs ix)\<rparr>,
                ix, tnext s)"
    using NewTable_result[OF assms] by simp
  have len: "length ?idxs = slen (Idxs ix)" using h by (simp add: wf_view_length)
  have cells: "Len (Cols (materialize ?t ?idxs) ! ci) = slen (Idxs ix) * cellSize (Cols ?t ! ci) \<and>
       (\<forall>i < slen (Idxs ix).
          cell (Cols (materialize ?t ?idxs) ! ci) (cellSize (Cols ?t ! ci)) i =
          cell (Cols ?t ! ci) (cellSize (Cols ?t ! ci)) (nat (?idxs ! i)))"
    if ci: "ci < length (Cols ?t)" for ci
  proof -
    have w: "wf_column (Rows ?t) (Cols ?t ! ci)"
      using h ci by (simp add: wf_table_def list_all_iff)
    have v: "valid_idxs (Rows ?t) ?idxs" using h by simp
    have m: "Values (Cols (materialize ?t ?idxs) ! ci) = gather (Cols ?t ! ci) ?idxs"
      using ci by (simp add: materialize_def)
    show ?thesis
      using gather_cells[OF w v] len by (simp add: m Len_def cell_def)
  qed
  show "\<exists>s'. NewTable s ix = Inr (s', ix, tnext s) \<and>
                 tbls s' (tnext s) = materialize ?t ?idxs \<and>
                 Schema (tbls s' (tnext s)) = Schema ?t \<and>
                 Rows (tbls s' (tnext s)) = slen (Idxs ix) \<and>
                 length (Cols (tbls s' (tnext s))) = length (Cols ?t) \<and>
                 copies s' = copies s + length (Cols ?t) * slen (Idxs ix) \<and>
                 (\<forall>ci < length (Cols ?t).
                    Len (Cols (tbls s' (tnext s)) ! ci) =
                      slen (Idxs ix) * cellSize (Cols ?t ! ci) \<and>
                    (\<forall>i < slen (Idxs ix).
                       cell (Cols (tbls s' (tnext s)) ! ci) (cellSize (Cols ?t ! ci)) i =
                       cell (Cols ?t ! ci) (cellSize (Cols ?t ! ci))
                         (nat (?idxs ! i))))"
    unfolding r using cells len
    by (simp add: materialize_Schema) (simp add: materialize_def)
qed

lemma ex_table_facts:
  "tbls ex_state 0 = ex_table" "tbls ex_state2 0 = ex_table" "tbls ex_state0 0 = ex_table"
  "tnext ex_state = 1" "tnext ex_state2 = 1" "tnext ex_state0 = 1"
  "copies ex_state = 0" "copies ex_state2 = 0"
  "Rows ex_table = 3" "length (Cols ex_table) = 2"
  by (simp_all add: ex_state_def ex_state2_def ex_state0_def ex_table_def)

lemma ex_wf_table: "wf_table ex_table"
  by (simp add: wf_table_def wf_column_def ex_table_def ex_id_def ex_v_def cellSize_def)

lemma ex_fits: "fits ex_table 3"
  by (simp add: fits_def ex_table_def ex_id_def ex_v_def cellSize_def)

lemma ex_view2_facts:
  "wf_view ex_state2 ex_view2" "idxs_of ex_state2 ex_view2 = [2, 0, 2]"
  "Table ex_view2 = Some 0" "slen (Idxs ex_view2) = 3"
  by (simp_all add: wf_view_def idxs_of_def ex_state2_def ex_view2_def ex_state_def)

lemma ex_materialize:
  "map stringAt (Values (Cols (materialize ex_table [2, 0, 2]) ! 0)) = [''2'', ''3'', ''2'']"
  "map stringAt (Values (Cols (materialize ex_table [2, 0, 2]) ! 1)) = [''a'', ''b'', ''a'']"
  by (simp_all add: materialize_def gather_def cell_def cellSize_def ex_table_def ex_id_def
        ex_v_def fl_def)

text \<open>
  The empty view gives a table without rows and without copying; the view \<open>[2, 0, 2]\<close>
  gives the rows \<open>(2, a)\<close>, \<open>(3, b)\<close>, \<open>(2, a)\<close> after six copies.
\<close>

theorem NewTable_materializes_witness:
  "Table ex_empty_view = Some 0 \<and> slen (Idxs ex_empty_view) = 0 \<and>
   (\<exists>s'. NewTable ex_state ex_empty_view = Inr (s', ex_empty_view, 1) \<and> copies s' = 0 \<and>
         Schema (tbls s' 1) = Schema ex_table \<and> Rows (tbls s' 1) = 0 \<and>
         list_all (\<lambda>c. Values c = []) (Cols (tbls s' 1))) \<and>
   Table ex_view2 = Some 0 \<and> wf_view ex_state2 ex_view2 \<and> wf_table (tbls ex_state2 0) \<and>
   valid_idxs (Rows (tbls ex_state2 0)) (idxs_of ex_state2 ex_view2) \<and>
   fits (tbls ex_state2 0) (slen (Idxs ex_view2)) \<and>
   (\<exists>s'. NewTable ex_state2 ex_view2 = Inr (s', ex_view2, 1) \<and>
         Schema (tbls s' 1) = Schema ex_table \<and> Rows (tbls s' 1) = 3 \<and> copies s' = 6 \<and>
         map stringAt (Values (Cols (tbls s' 1) ! 0)) = [''2'', ''3'', ''2''] \<and>
         map stringAt (Values (Cols (tbls s' 1) ! 1)) = [''a'', ''b'', ''a''])"
proof -
  have e: "Table ex_empty_view = Some 0" "slen (Idxs ex_empty_view) = 0"
    by (simp_all add: ex_empty_view_def)
  have h: "wf_view ex_state2 ex_view2 \<and> wf_table (tbls ex_state2 0) \<and>
      valid_idxs (Rows (tbls ex_state2 0)) (idxs_of ex_state2 ex_view2) \<and>
      fits (tbls ex_state2 0) (slen (Idxs ex_view2))"
    by (simp add: ex_view2_facts ex_table_facts ex_wf_table ex_fits valid_idxs_def)
  from NewTable_materializes[OF e(1), of ex_state] e(2)
  have 1: "\<exists>s'. NewTable ex_state ex_empty_view = Inr (s', ex_empty_view, 1) \<and> copies s' = 0 \<and>
         Schema (tbls s' 1) = Schema ex_table \<and> Rows (tbls s' 1) = 0 \<and>
         list_all (\<lambda>c. Values c = []) (Cols (tbls s' 1))"
    by (simp add: ex_table_facts)
  from NewTable_materializes[OF ex_view2_facts(3), of ex_state2] h
  obtain s' where s': "NewTable ex_state2 ex_view2 = Inr (s', ex_view2, 1)"
    "tbls s' 1 = materialize ex_table [2, 0, 2]" "Schema (tbls s' 1) = Schema ex_table"
    "Rows (tbls s' 1) = 3" "copies s' = 6"
    by (auto simp: ex_table_facts ex_view2_facts)
  have 2: "\<exists>s'. NewTable ex_state2 ex_view2 = Inr (s', ex_view2, 1) \<and>
         Schema (tbls s' 1) = Schema ex_table \<and> Rows (tbls s' 1) = 3 \<and> copies s' = 6 \<and>
         map stringAt (Values (Cols (tbls s' 1) ! 0)) = [''2'', ''3'', ''2''] \<and>
         map stringAt (Values (Cols (tbls s' 1) ! 1)) = [''a'', ''b'', ''a'']"
    using s' ex_materialize by (intro exI[of _ s']) simp
  show ?thesis using e h 1 2 ex_view2_facts(3) by blast
qed

section \<open>The round trip through a fresh view\<close>

lemma seqLoop_map:
  "\<forall>j \<in> set js. j < length a \<Longrightarrow>
   seqLoop js a = map (\<lambda>k. if k \<in> set js then int k else a ! k) [0..<length a]"
proof (induction js arbitrary: a)
  case Nil
  then show ?case by (simp add: map_nth)
next
  case (Cons j js)
  then have "seqLoop js (a[j := int j]) =
      map (\<lambda>k. if k \<in> set js then int k else a[j := int j] ! k) [0..<length (a[j := int j])]"
    by (intro Cons.IH) simp
  also have "\<dots> = map (\<lambda>k. if k \<in> set (j # js) then int k else a ! k) [0..<length a]"
    by (auto simp: nth_list_update)
  finally show ?case by simp
qed

lemma NewIdxTable_result:
  "NewIdxTable s (Some tp) =
     (s\<lparr>arrs := (arrs s)(anext s := map int [0..<Rows (tbls s tp)]), anext := Suc (anext s)\<rparr>,
      \<lparr>Table = Some tp, Idxs = \<lparr>sptr = anext s, slen = Rows (tbls s tp)\<rparr>, lessFunc = None\<rparr>)"
proof -
  let ?n = "Rows (tbls s tp)"
  have "seqLoop [0..<?n] (replicate ?n 0) = map int [0..<?n]"
    using seqLoop_map[of "[0..<?n]" "replicate ?n 0"] by simp
  then show ?thesis
    by (simp add: NewIdxTable_def SetTable_def Sequential_def make_ints_def new_IdxTable_def)
qed

lemma concat_cells:
  "concat (map (\<lambda>r. take n (drop (r * n) xs)) [0..<m]) = take (m * n) xs"
proof (induction m)
  case 0
  then show ?case by simp
next
  case (Suc m)
  have "take (m * n) xs @ take n (drop (m * n) xs) = take (m * n + n) xs"
    by (simp add: take_add)
  then show ?case using Suc by (simp add: add.commute)
qed

lemma gather_identity:
  assumes "wf_column rows c"
  shows "gather c (map int [0..<rows]) = Values c"
proof -
  have "gather c (map int [0..<rows]) =
      concat (map (\<lambda>r. take (cellSize c) (drop (r * cellSize c) (Values c))) [0..<rows])"
    by (simp add: gather_def cell_def comp_def)
  also have "\<dots> = take (rows * cellSize c) (Values c)" by (rule concat_cells)
  finally show ?thesis using assms by (simp add: wf_column_def)
qed

lemma materialize_identity:
  assumes "wf_table t"
  shows "materialize t (map int [0..<Rows t]) = t"
proof -
  have "c\<lparr>Shape := Rows t # tl (Shape c), Values := gather c (map int [0..<Rows t])\<rparr> = c"
    if "c \<in> set (Cols t)" for c
  proof -
    have w: "wf_column (Rows t) c" using assms that by (simp add: wf_table_def list_all_iff)
    then have "Rows t # tl (Shape c) = Shape c" by (cases "Shape c") (simp_all add: wf_column_def)
    then show ?thesis using gather_identity[OF w] by simp
  qed
  then have "map (\<lambda>c. c\<lparr>Shape := Rows t # tl (Shape c),
                        Values := gather c (map int [0..<Rows t])\<rparr>) (Cols t) = Cols t"
    by (simp add: map_idI)
  then show ?thesis by (simp add: materialize_def)
qed

text \<open>
  C4. For every well-formed table (non-empty or not), NewIdxTable gives the view with the
  indexes \<open>0..rows-1\<close>, and NewTable on that view returns a table equal to the source:
  the same columns with the same names, kinds, shapes and elements, and the same row count.
\<close>

theorem NewIdxTable_NewTable_identity:
  assumes "wf_table (tbls s tp)"
  shows "\<exists>s1 ix s2 np. NewIdxTable s (Some tp) = (s1, ix) \<and>
           idxs_of s1 ix = map int [0..<Rows (tbls s tp)] \<and>
           NewTable s1 ix = Inr (s2, ix, np) \<and> tbls s2 np = tbls s tp"
proof -
  let ?t = "tbls s tp"
  let ?s1 = "s\<lparr>arrs := (arrs s)(anext s := map int [0..<Rows ?t]), anext := Suc (anext s)\<rparr>"
  let ?ix = "\<lparr>Table = Some tp, Idxs = \<lparr>sptr = anext s, slen = Rows ?t\<rparr>, lessFunc = None\<rparr>"
  have i: "idxs_of ?s1 ?ix = map int [0..<Rows ?t]" by (simp add: idxs_of_def)
  have f: "fits ?t (Rows ?t)"
    using assms by (auto simp: fits_def wf_table_def wf_column_def list_all_iff)
  have "NewTable ?s1 ?ix =
      Inr (?s1\<lparr>tbls := (tbls ?s1)(tnext ?s1 := materialize (tbls ?s1 tp) (idxs_of ?s1 ?ix)),
              tnext := Suc (tnext ?s1),
              copies := copies ?s1 + length (Cols (tbls ?s1 tp)) * slen (Idxs ?ix)\<rparr>,
           ?ix, tnext ?s1)"
    by (rule NewTable_result) (use assms f in \<open>simp_all add: wf_view_def i valid_idxs_def list_all_iff\<close>)
  then have "NewTable ?s1 ?ix =
      Inr (?s1\<lparr>tbls := (tbls s)(tnext s := ?t), tnext := Suc (tnext s),
              copies := copies s + length (Cols ?t) * Rows ?t\<rparr>, ?ix, tnext s)"
    unfolding i by (simp add: materialize_identity[OF assms])
  then show ?thesis using i NewIdxTable_result[of s tp]
    by (intro exI[of _ ?s1] exI[of _ ?ix] exI[of _ "tnext s"] exI conjI) (assumption | simp)+
qed

text \<open>The round trip on the example table of three rows.\<close>

theorem NewIdxTable_NewTable_identity_witness:
  "wf_table (tbls ex_state0 0) \<and>
   NewIdxTable ex_state0 (Some 0) = (ex_state, ex_view) \<and>
   idxs_of ex_state ex_view = [0, 1, 2] \<and>
   (\<exists>s2 np. NewTable ex_state ex_view = Inr (s2, ex_view, np) \<and> tbls s2 np = ex_table)"
proof -
  have w: "wf_table (tbls ex_state0 0)" by (simp add: ex_table_facts ex_wf_table)
  have n: "NewIdxTable ex_state0 (Some 0) = (ex_state, ex_view)"
    unfolding NewIdxTable_result
    by (simp add: ex_state_def ex_view_def ex_state0_def ex_table_def upt_rec)
  from NewIdxTable_NewTable_identity[OF w] show ?thesis
    unfolding n using w ex_idxs by (auto simp: ex_table_facts)
qed

section \<open>NewTable and AggCol leave the view alone\<close>

lemma NewTable_frame:
  assumes "NewTable s ix = Inr (s', ix', np)"
  shows "ix' = ix \<and> np = tnext s \<and> arrs s' = arrs s \<and> anext s' = anext s \<and>
         (\<forall>p. p \<noteq> tnext s \<longrightarrow> tbls s' p = tbls s p)"
  using assms
  by (auto simp: NewTable_def Let_def split: option.splits if_splits sum.splits prod.splits)

lemma AggCol_frame:
  assumes "AggCol s ix colIdx ini fn = Inr (s', ix', ag)"
  shows "s' = s \<and> ix' = ix"
  using assms
  by (auto simp: AggCol_def Let_def split: option.splits if_splits sum.splits prod.splits)

lemma RowCellSize_wf:
  "wf_column rows c \<Longrightarrow> 0 < rows \<Longrightarrow> RowCellSize c = Inr (rows, cellSize c)"
  by (cases "Shape c") (simp_all add: wf_column_def RowCellSize_def Len_def)

text \<open>
  C10. NewTable and AggCol do not write to the view. For a view with valid indexes on an
  allocated, well-formed table, NewTable returns with the receiver as it was, its indexes
  read from the new store are the same values in the same order, and its table pointer
  still leads to the same table; AggCol, for an in-range column of a table with rows,
  returns with the store and the receiver as they were, and whenever AggCol returns at
  all the store and the receiver are unchanged.
\<close>

theorem NewTable_AggCol_read_only:
  assumes "Table ix = Some tp" and "tp < tnext s" and "wf_view s ix"
    and "wf_table (tbls s tp)"
    and "valid_idxs (Rows (tbls s tp)) (idxs_of s ix)"
    and "fits (tbls s tp) (slen (Idxs ix))"
  shows "(\<exists>s' np. NewTable s ix = Inr (s', ix, np) \<and> idxs_of s' ix = idxs_of s ix \<and>
                  tbls s' tp = tbls s tp \<and> deref s' (Table ix) = deref s (Table ix)) \<and>
         (0 \<le> colIdx \<and> colIdx < int (length (Cols (tbls s tp))) \<and> 0 < Rows (tbls s tp) \<longrightarrow>
            (\<exists>ag. AggCol s ix colIdx ini fn = Inr (s, ix, ag))) \<and>
         (\<forall>s' ix' ag. AggCol s ix colIdx ini fn = Inr (s', ix', ag) \<longrightarrow> s' = s \<and> ix' = ix)"
proof (intro conjI impI allI)
  let ?s' = "s\<lparr>tbls := (tbls s)(tnext s := materialize (tbls s tp) (idxs_of s ix)),
                  tnext := Suc (tnext s),
                  copies := copies s + length (Cols (tbls s tp)) * slen (Idxs ix)\<rparr>"
  have "NewTable s ix = Inr (?s', ix, tnext s)"
    by (rule NewTable_result[OF assms(1,3,4,5,6)])
  moreover have "idxs_of ?s' ix = idxs_of s ix" by (simp add: idxs_of_def)
  moreover have "tbls ?s' tp = tbls s tp" using assms(2) by simp
  moreover have "deref ?s' (Table ix) = deref s (Table ix)"
    using assms(1,2) by (simp add: deref_def)
  ultimately show "\<exists>s' np. NewTable s ix = Inr (s', ix, np) \<and> idxs_of s' ix = idxs_of s ix \<and>
                  tbls s' tp = tbls s tp \<and> deref s' (Table ix) = deref s (Table ix)"
    by blast
next
  let ?t = "tbls s tp"
  assume c: "0 \<le> colIdx \<and> colIdx < int (length (Cols ?t)) \<and> 0 < Rows ?t"
  let ?cl = "Cols ?t ! nat colIdx"
  have "nat colIdx < length (Cols ?t)" using c by (simp add: nat_less_iff)
  then have "?cl \<in> set (Cols ?t)" by (rule nth_mem)
  then have w: "wf_column (Rows ?t) ?cl"
    using assms(4) by (simp add: wf_table_def list_all_iff)
  have l: "Len ?cl < 2 ^ 63" using w by (simp add: wf_column_def Len_def)
  have rc: "RowCellSize ?cl = Inr (Rows ?t, cellSize ?cl)"
    using RowCellSize_wf[OF w] c by simp
  have "AggCol s ix colIdx ini fn =
      Inr (s, ix, agg_spec ?cl fn (cellSize ?cl) (idxs_of s ix) ini) \<and>
      length (agg_spec ?cl fn (cellSize ?cl) (idxs_of s ix) ini) = cellSize ?cl"
    by (rule AggCol_result[OF assms(1) _ _ refl rc l assms(5)]) (use c in simp_all)
  then show "\<exists>ag. AggCol s ix colIdx ini fn = Inr (s, ix, ag)" by blast
next
  fix s' ix' ag
  assume "AggCol s ix colIdx ini fn = Inr (s', ix', ag)"
  then show "s' = s" "ix' = ix" using AggCol_frame by blast+
qed

text \<open>Both calls on the view \<open>[2, 0, 2]\<close> of the example table.\<close>

theorem NewTable_AggCol_read_only_witness:
  "Table ex_view2 = Some 0 \<and> 0 < tnext ex_state2 \<and> wf_view ex_state2 ex_view2 \<and>
   wf_table (tbls ex_state2 0) \<and>
   valid_idxs (Rows (tbls ex_state2 0)) (idxs_of ex_state2 ex_view2) \<and>
   fits (tbls ex_state2 0) (slen (Idxs ex_view2)) \<and>
   (\<exists>s' np. NewTable ex_state2 ex_view2 = Inr (s', ex_view2, np) \<and>
       idxs_of s' ex_view2 = [2, 0, 2] \<and> tbls s' 0 = ex_table) \<and>
   (\<exists>ag. AggCol ex_state2 ex_view2 0 (Fin 0) ex_sum = Inr (ex_state2, ex_view2, ag))"
proof -
  have h: "Table ex_view2 = Some 0" "0 < tnext ex_state2" "wf_view ex_state2 ex_view2"
    "wf_table (tbls ex_state2 0)"
    "valid_idxs (Rows (tbls ex_state2 0)) (idxs_of ex_state2 ex_view2)"
    "fits (tbls ex_state2 0) (slen (Idxs ex_view2))"
    by (simp_all add: ex_view2_facts ex_table_facts ex_wf_table ex_fits valid_idxs_def)
  from NewTable_AggCol_read_only[OF h, of 0 "Fin 0" ex_sum] h show ?thesis
    by (simp add: ex_view2_facts ex_table_facts) blast
qed

section \<open>Clone\<close>

lemma Clone_result:
  assumes "wf_view s ix"
  shows "Clone s ix =
           (s\<lparr>arrs := (arrs s)(anext s := idxs_of s ix), anext := Suc (anext s)\<rparr>,
            \<lparr>Table = Table ix, Idxs = \<lparr>sptr = anext s, slen = slen (Idxs ix)\<rparr>, lessFunc = None\<rparr>)"
  using assms
  by (simp add: Clone_def CopyFrom_def make_ints_def copy_ints_def new_IdxTable_def
      wf_view_def idxs_of_def)

lemma Swap_frame:
  assumes "Swap s ix i j = Inr (s', ix')"
  shows "ix' = ix \<and> (\<forall>q. q \<noteq> sptr (Idxs ix) \<longrightarrow> arrs s' q = arrs s q)"
  using assms by (auto simp: Swap_def Let_def split: if_splits)

lemma runSwaps_frame:
  "runSwaps s ix sched = Inr (s', ix') \<Longrightarrow>
   ix' = ix \<and> (\<forall>q. q \<noteq> sptr (Idxs ix) \<longrightarrow> arrs s' q = arrs s q)"
proof (induction sched arbitrary: s)
  case Nil
  then show ?case by simp
next
  case (Cons ij sched)
  obtain i j where ij: "ij = (i, j)" by (cases ij)
  from Cons.prems obtain s1 ix1 where
    s1: "Swap s ix i j = Inr (s1, ix1)" and r: "runSwaps s1 ix1 sched = Inr (s', ix')"
    unfolding ij by (auto split: sum.splits)
  from Swap_frame[OF s1] have f1: "ix1 = ix" "\<forall>q. q \<noteq> sptr (Idxs ix) \<longrightarrow> arrs s1 q = arrs s q"
    by simp_all
  from Cons.IH[of s1] r f1(1) have "ix' = ix" "\<forall>q. q \<noteq> sptr (Idxs ix) \<longrightarrow> arrs s' q = arrs s1 q"
    by simp_all
  then show ?case using f1 by simp
qed

lemma Sort_frame:
  assumes "Sort s ix lf sched = Inr (s', ix')"
  shows "sptr (Idxs ix') = sptr (Idxs ix) \<and> (\<forall>q. q \<noteq> sptr (Idxs ix) \<longrightarrow> arrs s' q = arrs s q)"
  using runSwaps_frame[OF assms[unfolded Sort_def]] by simp

lemma Filter_frame:
  assumes "Filter s ix f = Inr (s', ix')"
  shows "sptr (Idxs ix') = sptr (Idxs ix) \<and> (\<forall>q. q \<noteq> sptr (Idxs ix) \<longrightarrow> arrs s' q = arrs s q)"
  using assms by (auto simp: Filter_def Let_def split: sum.splits prod.splits)

lemma mutate_frame:
  "mutate s ix ms = Inr (s', ix') \<Longrightarrow>
   sptr (Idxs ix') = sptr (Idxs ix) \<and> (\<forall>q. q \<noteq> sptr (Idxs ix) \<longrightarrow> arrs s' q = arrs s q)"
proof (induction s ix ms rule: mutate.induct)
  case (1 s ix)
  then show ?case by simp
next
  case (2 s ix f ms)
  from "2.prems" obtain s1 ix1 where
    a: "Filter s ix f = Inr (s1, ix1)" and b: "mutate s1 ix1 ms = Inr (s', ix')"
    by (auto split: sum.splits)
  from Filter_frame[OF a] "2.IH"[OF a refl b] show ?case by simp
next
  case (3 s ix lf sched ms)
  from "3.prems" obtain s1 ix1 where
    a: "Sort s ix lf sched = Inr (s1, ix1)" and b: "mutate s1 ix1 ms = Inr (s', ix')"
    by (auto split: sum.splits)
  from Sort_frame[OF a] "3.IH"[OF a refl b] show ?case by simp
qed

lemma other_view_unchanged:
  assumes "mutate s ix ms = Inr (s', ix')" and "sptr (Idxs jx) \<noteq> sptr (Idxs ix)"
  shows "idxs_of s' jx = idxs_of s jx"
  using mutate_frame[OF assms(1)] assms(2) by (simp add: idxs_of_def)

text \<open>
  C8. Clone returns a view with the same table pointer (no table is allocated) whose
  indexes are the same values in the same order, held in a backing array of its own.
  Whatever sequence of Filter and Sort calls then runs on the clone, the indexes of the
  original stay as they were; and whatever sequence runs on the original, the indexes of
  the clone stay as they were.
\<close>

theorem Clone_independent:
  assumes "wf_view s ix"
  shows "\<exists>s1 nix. Clone s ix = (s1, nix) \<and>
           Table nix = Table ix \<and> tbls s1 = tbls s \<and> tnext s1 = tnext s \<and>
           idxs_of s1 nix = idxs_of s ix \<and> idxs_of s1 ix = idxs_of s ix \<and>
           sptr (Idxs nix) \<noteq> sptr (Idxs ix) \<and> wf_view s1 nix \<and> wf_view s1 ix \<and>
           (\<forall>ms s2 nix'. mutate s1 nix ms = Inr (s2, nix') \<longrightarrow> idxs_of s2 ix = idxs_of s ix) \<and>
           (\<forall>ms s2 ix'. mutate s1 ix ms = Inr (s2, ix') \<longrightarrow> idxs_of s2 nix = idxs_of s ix)"
proof -
  let ?s1 = "s\<lparr>arrs := (arrs s)(anext s := idxs_of s ix), anext := Suc (anext s)\<rparr>"
  let ?nix = "\<lparr>Table = Table ix, Idxs = \<lparr>sptr = anext s, slen = slen (Idxs ix)\<rparr>, lessFunc = None\<rparr>"
  have ne: "sptr (Idxs ix) \<noteq> anext s" using assms by (simp add: wf_view_def)
  have len: "length (idxs_of s ix) = slen (Idxs ix)" using assms by (simp add: wf_view_def idxs_of_def)
  have i1: "idxs_of ?s1 ?nix = idxs_of s ix" using len by (simp add: idxs_of_def)
  have i2: "idxs_of ?s1 ix = idxs_of s ix" using ne by (simp add: idxs_of_def)
  have w1: "wf_view ?s1 ?nix" using len by (simp add: wf_view_def)
  have w2: "wf_view ?s1 ix" using assms ne by (simp add: wf_view_def)
  have m1: "idxs_of s2 ix = idxs_of s ix" if "mutate ?s1 ?nix ms = Inr (s2, nix')" for ms s2 nix'
    using other_view_unchanged[OF that, of ix] ne i2 by simp
  have m2: "idxs_of s2 ?nix = idxs_of s ix" if "mutate ?s1 ix ms = Inr (s2, ix')" for ms s2 ix'
    using other_view_unchanged[OF that, of ?nix] ne i1 by simp
  show ?thesis
    unfolding Clone_result[OF assms]
    using ne i1 i2 w1 w2 m1 m2
    by (intro exI[of _ ?s1] exI[of _ ?nix] conjI allI impI) (simp_all del: mutate.simps)
qed

lemma ex_clone:
  "Clone ex_state ex_view =
     (ex_state\<lparr>arrs := (arrs ex_state)(2 := [0, 1, 2]), anext := 3\<rparr>,
      \<lparr>Table = Some 0, Idxs = \<lparr>sptr = 2, slen = 3\<rparr>, lessFunc = None\<rparr>)"
  unfolding Clone_result[OF ex_wf] ex_idxs
  by (simp add: ex_state_def ex_view_def ex_state0_def)

lemma ex_filterLoop:
  "filterLoop (ex_keep (Some ex_table)) 3 ([0, 1, 2], 3) = Inr ([1, 2, 2], 2)"
  by (simp add: eval_nat_numeral ex_keep_vals delete_at_def)

lemma ex_mutate_clone:
  "\<exists>s2 nix'. mutate (ex_state\<lparr>arrs := (arrs ex_state)(2 := [0, 1, 2]), anext := 3\<rparr>)
      \<lparr>Table = Some 0, Idxs = \<lparr>sptr = 2, slen = 3\<rparr>, lessFunc = None\<rparr>
      [DoFilter ex_keep, DoSort ex_by_id_desc [(0, 1)]] = Inr (s2, nix') \<and>
     idxs_of s2 nix' = [2, 1]"
  by (simp add: Filter_def deref_def ex_table_facts ex_filterLoop Sort_def Swap_def idxs_of_def)

lemma ex_mutate_original:
  "\<exists>s2 ix'. mutate (ex_state\<lparr>arrs := (arrs ex_state)(2 := [0, 1, 2]), anext := 3\<rparr>)
      ex_view [DoSort ex_by_id_desc [(1, 2)]] = Inr (s2, ix') \<and>
     idxs_of s2 ix' = [0, 2, 1]"
  by (simp add: Sort_def Swap_def idxs_of_def ex_view_def ex_state_def ex_state0_def)

text \<open>
  The clone of the example view is filtered and sorted while the original keeps
  \<open>[0, 1, 2]\<close>; the original is sorted while the clone keeps \<open>[0, 1, 2]\<close>.
\<close>

theorem Clone_independent_witness:
  "wf_view ex_state ex_view \<and>
   (\<exists>s1 nix. Clone ex_state ex_view = (s1, nix) \<and> Table nix = Table ex_view \<and>
      tbls s1 = tbls ex_state \<and> sptr (Idxs nix) \<noteq> sptr (Idxs ex_view) \<and>
      idxs_of s1 nix = [0, 1, 2] \<and> idxs_of s1 ex_view = [0, 1, 2] \<and>
      (\<exists>s2 nix'. mutate s1 nix [DoFilter ex_keep, DoSort ex_by_id_desc [(0, 1)]] = Inr (s2, nix') \<and>
          idxs_of s2 nix' = [2, 1] \<and> idxs_of s2 ex_view = [0, 1, 2]) \<and>
      (\<exists>s2 ix'. mutate s1 ex_view [DoSort ex_by_id_desc [(1, 2)]] = Inr (s2, ix') \<and>
          idxs_of s2 ix' = [0, 2, 1] \<and> idxs_of s2 nix = [0, 1, 2]))"
proof -
  from Clone_independent[OF ex_wf] obtain s1 nix where
    c: "Clone ex_state ex_view = (s1, nix)" "Table nix = Table ex_view" "tbls s1 = tbls ex_state"
      "idxs_of s1 nix = idxs_of ex_state ex_view" "idxs_of s1 ex_view = idxs_of ex_state ex_view"
      "sptr (Idxs nix) \<noteq> sptr (Idxs ex_view)"
    and m1: "\<And>ms s2 nix'. mutate s1 nix ms = Inr (s2, nix') \<Longrightarrow>
               idxs_of s2 ex_view = idxs_of ex_state ex_view"
    and m2: "\<And>ms s2 ix'. mutate s1 ex_view ms = Inr (s2, ix') \<Longrightarrow>
               idxs_of s2 nix = idxs_of ex_state ex_view"
    by blast
  from c(1) have e: "s1 = ex_state\<lparr>arrs := (arrs ex_state)(2 := [0, 1, 2]), anext := 3\<rparr>"
    "nix = \<lparr>Table = Some 0, Idxs = \<lparr>sptr = 2, slen = 3\<rparr>, lessFunc = None\<rparr>"
    unfolding ex_clone by simp_all
  from ex_mutate_clone obtain s2 nix' where
    a: "mutate s1 nix [DoFilter ex_keep, DoSort ex_by_id_desc [(0, 1)]] = Inr (s2, nix')"
      "idxs_of s2 nix' = [2, 1]" unfolding e by blast
  from ex_mutate_original obtain s3 ix' where
    b: "mutate s1 ex_view [DoSort ex_by_id_desc [(1, 2)]] = Inr (s3, ix')"
      "idxs_of s3 ix' = [0, 2, 1]" unfolding e by blast
  show ?thesis
    using ex_wf c a b m1[OF a(1)] m2[OF b(1)] unfolding ex_idxs by blast
qed

text \<open>
  Without the copy the two views would share the backing array: a second view with the
  slice header of the first sees what Filter on the first moved.
\<close>

lemma shared_backing_array_is_visible:
  "\<exists>s' ix'. Filter ex_state ex_view ex_keep = Inr (s', ix') \<and>
     idxs_of s' ix' = [1, 2] \<and> idxs_of ex_state ex_view = [0, 1, 2] \<and>
     idxs_of s' ex_view = [1, 2, 2]"
proof -
  have v: "sptr (Idxs ex_view) = 1" "slen (Idxs ex_view) = 3" "arrs ex_state (Suc 0) = [0, 1, 2]"
    by (simp_all add: ex_view_def ex_state_def)
  have "Filter ex_state ex_view ex_keep =
      Inr (ex_state\<lparr>arrs := (arrs ex_state)(1 := [1, 2, 2])\<rparr>,
           ex_view\<lparr>Idxs := \<lparr>sptr = 1, slen = 2\<rparr>\<rparr>)"
    by (simp add: Filter_def ex_deref v ex_filterLoop)
  then show ?thesis by (simp add: idxs_of_def v ex_idxs[unfolded idxs_of_def])
qed

section \<open>Sort\<close>

text \<open>
  What the code of the repository settles about Sort: whatever \<open>sort.Sort\<close> does
  through \<open>Swap\<close>, the indexes afterwards are a rearrangement of the indexes before.
  The order among entries that the comparator ties is the library's choice.
\<close>

lemma Swap_permutes:
  assumes "Swap s ix i j = Inr (s', ix')" and "wf_view s ix"
  shows "ix' = ix \<and> wf_view s' ix \<and> mset (idxs_of s' ix) = mset (idxs_of s ix)"
proof -
  let ?p = "sptr (Idxs ix)" and ?n = "slen (Idxs ix)"
  let ?a = "arrs s ?p"
  from assms(1) have b: "nat i < ?n" "nat j < ?n"
    and s': "s' = s\<lparr>arrs := (arrs s)(?p := (?a[nat i := ?a ! nat j])[nat j := ?a ! nat i])\<rparr>"
    and ix': "ix' = ix"
    by (auto simp: Swap_def Let_def split: if_splits)
  have n: "?n \<le> length ?a" using assms(2) by (simp add: wf_view_def)
  have "take ?n ((?a[nat i := ?a ! nat j])[nat j := ?a ! nat i]) =
        ((take ?n ?a)[nat i := take ?n ?a ! nat j])[nat j := take ?n ?a ! nat i]"
    using b by (simp add: take_update_swap)
  moreover have "mset (((take ?n ?a)[nat i := take ?n ?a ! nat j])[nat j := take ?n ?a ! nat i]) =
        mset (take ?n ?a)"
    using b n by (intro mset_swap) simp_all
  ultimately have "mset (idxs_of s' ix) = mset (idxs_of s ix)"
    unfolding s' by (simp add: idxs_of_def)
  moreover have "wf_view s' ix" using assms(2) unfolding s' by (simp add: wf_view_def)
  ultimately show ?thesis using ix' by simp
qed

lemma runSwaps_permutes:
  "runSwaps s ix sched = Inr (s', ix') \<Longrightarrow> wf_view s ix \<Longrightarrow>
   mset (idxs_of s' ix) = mset (idxs_of s ix)"
proof (induction sched arbitrary: s)
  case Nil
  then show ?case by simp
next
  case (Cons ij sched)
  obtain i j where ij: "ij = (i, j)" by (cases ij)
  from Cons.prems(1) obtain s1 ix1 where
    s1: "Swap s ix i j = Inr (s1, ix1)" and r: "runSwaps s1 ix1 sched = Inr (s', ix')"
    unfolding ij by (auto split: sum.splits)
  from Swap_permutes[OF s1 Cons.prems(2)]
  have f: "ix1 = ix" "wf_view s1 ix" "mset (idxs_of s1 ix) = mset (idxs_of s ix)" by simp_all
  from Cons.IH[of s1] r f show ?case by simp
qed

lemma Sort_permutes:
  assumes "Sort s ix lf sched = Inr (s', ix')" and "wf_view s ix"
  shows "mset (idxs_of s' ix') = mset (idxs_of s ix)"
proof -
  let ?ix = "ix\<lparr>lessFunc := Some lf\<rparr>"
  have r: "runSwaps s ?ix sched = Inr (s', ix')" using assms(1) by (simp add: Sort_def)
  have w: "wf_view s ?ix" using assms(2) by (simp add: wf_view_def)
  have "ix' = ?ix" using runSwaps_frame[OF r] by simp
  then show ?thesis using runSwaps_permutes[OF r w] by (simp add: idxs_of_def)
qed

end
